theory Spec2Isabelle
  imports Main "HOL-Library.AList"
begin

section \<open>Python values, errors and insertion-ordered dictionaries\<close>

text \<open>
  The development embeds \<^verbatim>\<open>transformer_engine/pytorch/cpu_offload.py\<close>.
  Python exceptions are values of type \<open>error\<close>; a function that can raise
  returns \<open>error + 'a\<close> with \<open>Inl\<close> for the exception.  A Python \<^verbatim>\<open>dict\<close> keeps
  insertion order, and the handlers iterate over their dictionaries, so a
  dictionary is an association list: \<open>map_of\<close> reads a key, \<open>AList.update\<close> is
  \<^verbatim>\<open>d[k] = v\<close> (in place for a present key, appended for a new one) and
  \<open>AList.delete\<close> is \<^verbatim>\<open>d.pop(k)\<close>.
\<close>

datatype error =
    AssertionError | KeyError | IndexError | AttributeError | TypeError
  | RuntimeError | ValueError

text \<open>
  A \<^verbatim>\<open>for\<close> loop whose body can raise: the body is run on each element in
  turn, threading the loop's state, until the first exception.
\<close>

fun for_each :: "('a \<Rightarrow> 'w \<Rightarrow> error + 'w) \<Rightarrow> 'a list \<Rightarrow> 'w \<Rightarrow> error + 'w" where
  "for_each body [] w = Inr w"
| "for_each body (x # xs) w =
     (case body x w of Inl e \<Rightarrow> Inl e | Inr w1 \<Rightarrow> for_each body xs w1)"

type_synonym ref = nat

type_synonym tag = "int \<times> int"

datatype device = CPU | CUDA nat

text \<open>
  The runtime classes the module distinguishes: \<^verbatim>\<open>type(t) in [torch.Tensor,
  torch.nn.Parameter]\<close> in \<^verbatim>\<open>mark_activation_offload\<close>, the two symbolic classes
  \<^verbatim>\<open>FakeTensor\<close> and \<^verbatim>\<open>FunctionalTensor\<close>, the quantized classes
  (\<^verbatim>\<open>isinstance(t, QuantizedTensorBase)\<close>) and among them \<^verbatim>\<open>Float8Tensor\<close>.
  \<open>TensorSubclass\<close> stands for any other subclass of \<^verbatim>\<open>torch.Tensor\<close>.
\<close>

datatype pyclass =
    Tensor | Parameter | TensorSubclass | FakeTensor | FunctionalTensor
  | MXFP8TensorBase | Float8Tensor

fun isinstance_stray :: "pyclass \<Rightarrow> bool" where
  "isinstance_stray FakeTensor = True"
| "isinstance_stray FunctionalTensor = True"
| "isinstance_stray _ = False"

fun isinstance_QuantizedTensorBase :: "pyclass \<Rightarrow> bool" where
  "isinstance_QuantizedTensorBase MXFP8TensorBase = True"
| "isinstance_QuantizedTensorBase Float8Tensor = True"
| "isinstance_QuantizedTensorBase _ = False"

fun isinstance_Float8Tensor :: "pyclass \<Rightarrow> bool" where
  "isinstance_Float8Tensor Float8Tensor = True"
| "isinstance_Float8Tensor _ = False"

text \<open>
  The values the handlers store and test with \<^verbatim>\<open>isinstance\<close>: \<^verbatim>\<open>None\<close>, a
  reference to an object, the tuple \<^verbatim>\<open>(device, cpu_backup)\<close> that \<^verbatim>\<open>offload\<close>
  returns, and a list.
\<close>

datatype pyval = PNone | PObj ref | PTuple device ref | PList "pyval list"

text \<open>
  An object carries what the module reads or writes: its class, the tensor's
  device, size, elements and pinned-ness, the three dynamic attributes (absent
  when \<open>None\<close>, so \<^verbatim>\<open>hasattr\<close> is \<open>\<noteq> None\<close>), and for a quantized tensor its
  underlying tensors in the order of \<^verbatim>\<open>prepare_for_saving\<close> and the Float8
  flag \<^verbatim>\<open>_transpose_invalid\<close>.
\<close>

record pyobj =
  cls :: pyclass
  device :: device
  shape :: "nat list"
  payload :: "nat list"
  pinned :: bool
  activation_offloading :: "bool option"
  needs_force_clear :: "bool option"
  do_not_clear :: "bool option"
  underlying :: "pyval list"
  transpose_invalid :: bool

text \<open>
  The store maps references to objects; \<open>next_ref\<close> is the next fresh
  reference.  \<open>restore_log\<close> records every call of \<^verbatim>\<open>restore_from_saved\<close>
  (the receiver), so that calls can be counted.

  Modelled from the spec: \<open>float8_clear_flag\<close> stands for what \<^verbatim>\<open>clear()\<close> of the
  Float8-like class does to \<^verbatim>\<open>_transpose_invalid\<close>; the class
  (\<^verbatim>\<open>tensor/float8_tensor.py\<close>) is not among the sources, the spec says only
  that \<open>clear\<close> releases the underlying storage, and every result below holds
  for any such function.
\<close>

record store =
  objs :: "ref \<Rightarrow> pyobj"
  next_ref :: ref
  restore_log :: "ref list"
  float8_clear_flag :: "bool \<Rightarrow> bool"

definition new_tensor :: "device \<Rightarrow> nat list \<Rightarrow> nat list \<Rightarrow> bool \<Rightarrow> pyobj" where
  "new_tensor dev shp els pin =
     \<lparr>cls = Tensor, device = dev, shape = shp, payload = els, pinned = pin,
      activation_offloading = None, needs_force_clear = None, do_not_clear = None,
      underlying = [], transpose_invalid = False\<rparr>"

definition alloc :: "pyobj \<Rightarrow> store \<Rightarrow> ref \<times> store" where
  "alloc ob H = (next_ref H, H\<lparr>objs := (objs H)(next_ref H := ob), next_ref := Suc (next_ref H)\<rparr>)"

definition upd_obj :: "ref \<Rightarrow> (pyobj \<Rightarrow> pyobj) \<Rightarrow> store \<Rightarrow> store" where
  "upd_obj r f H = H\<lparr>objs := (objs H)(r := f (objs H r))\<rparr>"

text \<open>\<^verbatim>\<open>t.data = torch.Tensor()\<close> and \<^verbatim>\<open>t.data = _empty_tensor()\<close>: the storage is emptied.\<close>

definition set_data_empty :: "ref \<Rightarrow> store \<Rightarrow> store" where
  "set_data_empty r H = upd_obj r (\<lambda>ob. ob\<lparr>shape := [0], payload := []\<rparr>) H"

text \<open>\<^verbatim>\<open>dst.copy_(src)\<close> for tensors of equal size.\<close>

definition copy_into :: "ref \<Rightarrow> ref \<Rightarrow> store \<Rightarrow> store" where
  "copy_into dst src H = upd_obj dst (\<lambda>ob. ob\<lparr>payload := payload (objs H src)\<rparr>) H"

text \<open>
  \<^verbatim>\<open>t.to(dev)\<close>: the tensor itself when it is on \<open>dev\<close> already, a new tensor
  on \<open>dev\<close> with the same elements otherwise.
\<close>

definition tensor_to :: "device \<Rightarrow> ref \<Rightarrow> store \<Rightarrow> ref \<times> store" where
  "tensor_to dev r H =
     (if device (objs H r) = dev then (r, H)
      else alloc (new_tensor dev (shape (objs H r)) (payload (objs H r)) False) H)"

text \<open>\<^verbatim>\<open>torch.empty_like(b)\<close>; \<^verbatim>\<open>None\<close>, a tuple or a list is a \<^verbatim>\<open>TypeError\<close>.\<close>

definition empty_like :: "pyval \<Rightarrow> store \<Rightarrow> error + (pyval \<times> store)" where
  "empty_like b H =
     (case b of
        PObj r \<Rightarrow>
          (let (n, H') = alloc (new_tensor (device (objs H r)) (shape (objs H r))
                                 (replicate (length (payload (objs H r))) 0) False) H
           in Inr (PObj n, H'))
      | _ \<Rightarrow> Inl TypeError)"

section \<open>The quantized-tensor contract\<close>

text \<open>
  \<^verbatim>\<open>MXFP8TensorBase\<close> keeps four tensors; \<^verbatim>\<open>prepare_for_saving\<close> returns them in
  order and sets each attribute to \<^verbatim>\<open>None\<close>, \<^verbatim>\<open>restore_from_saved\<close> reads them back
  from the head of the list (\<^verbatim>\<open>IndexError\<close> when the list is too short),
  \<^verbatim>\<open>clear\<close> empties the storage of each attribute that is not \<^verbatim>\<open>None\<close>, and
  \<^verbatim>\<open>get_data_tensors\<close> returns the first two.  The model keeps the attributes
  as the list \<open>underlying\<close> of any length, so that it covers the other quantized
  classes as well.
\<close>

definition prepare_for_saving :: "ref \<Rightarrow> store \<Rightarrow> pyval list \<times> store" where
  "prepare_for_saving c H =
     (underlying (objs H c), upd_obj c (\<lambda>ob. ob\<lparr>underlying := map (\<lambda>_. PNone) (underlying ob)\<rparr>) H)"

definition restore_from_saved :: "ref \<Rightarrow> pyval list \<Rightarrow> store \<Rightarrow> error + store" where
  "restore_from_saved c tensors H =
     (let n = length (underlying (objs H c)) in
      if length tensors < n then Inl IndexError
      else Inr ((upd_obj c (\<lambda>ob. ob\<lparr>underlying := take n tensors\<rparr>) H)
                  \<lparr>restore_log := restore_log H @ [c]\<rparr>))"

fun clear_fields :: "pyval list \<Rightarrow> store \<Rightarrow> error + store" where
  "clear_fields [] H = Inr H"
| "clear_fields (PNone # ts) H = clear_fields ts H"
| "clear_fields (PObj r # ts) H = clear_fields ts (set_data_empty r H)"
| "clear_fields (_ # ts) H = Inl AttributeError"

definition clear :: "ref \<Rightarrow> store \<Rightarrow> error + store" where
  "clear c H =
     (case clear_fields (underlying (objs H c)) H of
        Inl e \<Rightarrow> Inl e
      | Inr H' \<Rightarrow>
          Inr (if isinstance_Float8Tensor (cls (objs H' c))
               then upd_obj c (\<lambda>ob. ob\<lparr>transpose_invalid :=
                                         float8_clear_flag H' (transpose_invalid ob)\<rparr>) H'
               else H'))"

definition get_data_tensors :: "ref \<Rightarrow> store \<Rightarrow> error + pyval list" where
  "get_data_tensors c H =
     (if isinstance_QuantizedTensorBase (cls (objs H c))
      then Inr (take 2 (underlying (objs H c)))
      else Inl AttributeError)"

section \<open>Marking tensors for offload\<close>






text \<open>The predicate the factory gives its handler: \<^verbatim>\<open>hasattr(tensor, "activation_offloading")\<close>.\<close>

fun tensor_need_offloading_checker_activations :: "store \<Rightarrow> pyval \<Rightarrow> bool" where
  "tensor_need_offloading_checker_activations H (PObj r) = (activation_offloading (objs H r) \<noteq> None)"
| "tensor_need_offloading_checker_activations H _ = False"

section \<open>The synchronous offload primitive\<close>

text \<open>
  \<^verbatim>\<open>SynchronizedGroupOffloadHandler.offload\<close> allocates a pinned host tensor of
  the source's size, copies the source into it and returns
  \<^verbatim>\<open>(src_tensor.device, cpu_backup)\<close>.  \<^verbatim>\<open>reload\<close> copies the host tensor back, to
  a new tensor on the device or into \<^verbatim>\<open>copy_buffer\<close>, whose size must be the host
  tensor's.  Copies run on streams in the source; the model gives the contents
  once the copy has completed.
\<close>

definition offload :: "pyval \<Rightarrow> store \<Rightarrow> error + (pyval \<times> store)" where
  "offload src_tensor H =
     (case src_tensor of
        PObj src \<Rightarrow>
          (let (cpu_backup, H1) =
                 alloc (new_tensor CPU (shape (objs H src))
                          (replicate (length (payload (objs H src))) 0) True) H;
               H2 = copy_into cpu_backup src H1
           in Inr (PTuple (device (objs H src)) cpu_backup, H2))
      | _ \<Rightarrow> Inl AttributeError)"

definition reload :: "pyval \<Rightarrow> bool option \<Rightarrow> pyval \<Rightarrow> store \<Rightarrow> error + (pyval \<times> store)" where
  "reload state non_blocking copy_buffer H =
     (case state of
        PTuple dev cpu_backup \<Rightarrow>
          (case copy_buffer of
             PNone \<Rightarrow> (let (t, H') = tensor_to dev cpu_backup H in Inr (PObj t, H'))
           | PObj buf \<Rightarrow>
               if shape (objs H cpu_backup) \<noteq> shape (objs H buf) then Inl AssertionError
               else Inr (PObj buf, copy_into buf cpu_backup H)
           | _ \<Rightarrow> Inl AttributeError)
      | _ \<Rightarrow> Inl TypeError)"

section \<open>The synchronous handler\<close>

record sync_handler =
  num_offload_group :: int
  tensor_need_offloading_checker :: "store \<Rightarrow> pyval \<Rightarrow> bool"
  current_group :: int
  tensor_count_current_group :: int
  torch_tensor_count :: int
  tensor_tag_to_state :: "(tag \<times> pyval) list"

text \<open>The constructor, with \<^verbatim>\<open>groupid_reset\<close>.\<close>

definition sync_init :: "int \<Rightarrow> (store \<Rightarrow> pyval \<Rightarrow> bool) \<Rightarrow> sync_handler" where
  "sync_init G checker =
     \<lparr>num_offload_group = G, tensor_need_offloading_checker = checker,
      current_group = 0, tensor_count_current_group = 0, torch_tensor_count = 0,
      tensor_tag_to_state = []\<rparr>"

definition sync_on_group_commit_forward ::
  "'a sync_handler_scheme \<Rightarrow> 'a sync_handler_scheme" where
  "sync_on_group_commit_forward h =
     h\<lparr>current_group := current_group h + 1, tensor_count_current_group := 0\<rparr>"

definition sync_on_group_commit_backward ::
  "'a sync_handler_scheme \<Rightarrow> error + 'a sync_handler_scheme" where
  "sync_on_group_commit_backward h =
     (let h1 = h\<lparr>current_group := current_group h - 1\<rparr>
      in if current_group h1 \<ge> 0 then Inr h1 else Inl AssertionError)"

definition sync_tensor_push ::
  "ref \<Rightarrow> 'a sync_handler_scheme \<times> store \<Rightarrow> error + (tag \<times> 'a sync_handler_scheme \<times> store)" where
  "sync_tensor_push tensor w =
     (case w of (h, H) \<Rightarrow>
       let tensor_tag = (current_group h, tensor_count_current_group h);
           h1 = h\<lparr>tensor_count_current_group := tensor_count_current_group h + 1\<rparr>
       in if map_of (tensor_tag_to_state h1) tensor_tag \<noteq> None then Inl AssertionError
          else if current_group h1 < num_offload_group h1
                  \<and> tensor_need_offloading_checker h1 H (PObj tensor)
          then (case offload (PObj tensor) H of
                  Inl e \<Rightarrow> Inl e
                | Inr (state, H') \<Rightarrow>
                    Inr (tensor_tag,
                         h1\<lparr>tensor_tag_to_state :=
                              AList.update tensor_tag state (tensor_tag_to_state h1)\<rparr>, H'))
          else Inr (tensor_tag,
                    h1\<lparr>tensor_tag_to_state :=
                         AList.update tensor_tag (PObj tensor) (tensor_tag_to_state h1)\<rparr>, H))"

definition sync_tensor_pop ::
  "tag \<Rightarrow> 'a sync_handler_scheme \<times> store \<Rightarrow> error + (pyval \<times> 'a sync_handler_scheme \<times> store)" where
  "sync_tensor_pop tensor_tag w =
     (case w of (h, H) \<Rightarrow>
       case map_of (tensor_tag_to_state h) tensor_tag of
         None \<Rightarrow> Inl AssertionError
       | Some state \<Rightarrow>
           (let h1 = h\<lparr>tensor_tag_to_state := AList.delete tensor_tag (tensor_tag_to_state h)\<rparr>
            in case state of
                 PTuple dev cpu_backup \<Rightarrow>
                   (case reload state None PNone H of
                      Inl e \<Rightarrow> Inl e
                    | Inr (tensor, H') \<Rightarrow> Inr (tensor, h1, H'))
               | _ \<Rightarrow> Inr (state, h1, H)))"

section \<open>The asynchronous handler: the window plan\<close>

text \<open>
  The loop at the end of \<^verbatim>\<open>AsyncDoubleBufferGroupOffloadHandler.__init__\<close>:
  \<^verbatim>\<open>
  constant = 0
  for i in range(self.num_offload_group):
      self.layer_window_map[i] = ((self.num_layers // self.num_offload_group) * (i + 1)) - 1
      if i < (self.num_layers % self.num_offload_group):
          self.layer_window_map[i] += i + 1
          constant = i + 1
      else:
          self.layer_window_map[i] += constant
  \<close>
  The loop state is the dictionary and \<^verbatim>\<open>constant\<close>; \<open>L\<close> is
  \<^verbatim>\<open>num_layers\<close> and \<open>G\<close> is \<^verbatim>\<open>num_offload_group\<close>.  Python's \<^verbatim>\<open>//\<close> and \<^verbatim>\<open>%\<close>
  are floor division and its remainder, as \<open>div\<close> and \<open>mod\<close> on \<open>int\<close>.
\<close>

fun window_loop ::
  "int \<Rightarrow> int \<Rightarrow> int list \<Rightarrow> (int \<times> int) list \<times> int \<Rightarrow> (int \<times> int) list \<times> int" where
  "window_loop L G [] (m, constant) = (m, constant)"
| "window_loop L G (i # rest) (m, constant) =
     (let v = ((L div G) * (i + 1)) - 1 in
      if i < L mod G
      then window_loop L G rest (AList.update i (v + (i + 1)) m, i + 1)
      else window_loop L G rest (AList.update i (v + constant) m, constant))"

definition make_layer_window_map :: "int \<Rightarrow> int \<Rightarrow> (int \<times> int) list" where
  "make_layer_window_map L G = fst (window_loop L G [0..G - 1] ([], 0))"

section \<open>The asynchronous handler\<close>

text \<open>
  \<^verbatim>\<open>AsyncDoubleBufferGroupOffloadHandler\<close> extends the synchronous handler.  The
  two CUDA streams are not part of the state: \<^verbatim>\<open>wait_stream\<close> orders copies in
  time and changes none of the fields below.
\<close>

record async_handler = sync_handler +
  num_layers :: int
  tensor_tag_to_buf :: "(tag \<times> pyval) list"
  fp8_tensor_object_map :: "(tag \<times> ref) list"
  float8_transpose_cache_valid :: "(tag \<times> bool) list"
  dereferencing_list :: "tag list"
  offloaded_group_count :: int
  layer_window_map :: "(int \<times> int) list"
  double_buffering :: bool
  reload_double_buffer :: "pyval list \<times> pyval list"
  double_buffer_created :: bool

type_synonym aworld = "async_handler \<times> store"

definition async_init ::
  "int \<Rightarrow> int \<Rightarrow> (store \<Rightarrow> pyval \<Rightarrow> bool) \<Rightarrow> bool \<Rightarrow> async_handler" where
  "async_init G L checker db =
     \<lparr>num_offload_group = G, tensor_need_offloading_checker = checker,
      current_group = 0, tensor_count_current_group = 0, torch_tensor_count = 0,
      tensor_tag_to_state = [],
      num_layers = L, tensor_tag_to_buf = [], fp8_tensor_object_map = [],
      float8_transpose_cache_valid = [], dereferencing_list = [],
      offloaded_group_count = 0, layer_window_map = make_layer_window_map L G,
      double_buffering = db, reload_double_buffer = ([], []),
      double_buffer_created = False\<rparr>"

text \<open>\<^verbatim>\<open>d[k].append(v)\<close> on a dictionary of lists.\<close>

definition dict_append ::
  "(tag \<times> pyval) list \<Rightarrow> tag \<Rightarrow> pyval \<Rightarrow> error + (tag \<times> pyval) list" where
  "dict_append d k v =
     (case map_of d k of
        None \<Rightarrow> Inl KeyError
      | Some (PList xs) \<Rightarrow> Inr (AList.update k (PList (xs @ [v])) d)
      | Some _ \<Rightarrow> Inl AttributeError)"

text \<open>
  The body of the loop \<^verbatim>\<open>for t in tensor_list\<close> of \<^verbatim>\<open>tensor_push\<close>; \<open>tensor\<close> is
  the pushed object and \<open>is_quantized_tensor\<close> the flag computed before the
  loop.
\<close>

definition push_tensor :: "bool \<Rightarrow> ref \<Rightarrow> tag \<Rightarrow> pyval \<Rightarrow> aworld \<Rightarrow> error + aworld" where
  "push_tensor is_quantized_tensor tensor tensor_tag t w =
     (case w of (h, H) \<Rightarrow>
       case (if is_quantized_tensor
             then dict_append (tensor_tag_to_state h) tensor_tag t
             else Inr (AList.update tensor_tag t (tensor_tag_to_state h))) of
         Inl e \<Rightarrow> Inl e
       | Inr d \<Rightarrow>
           (let h1 = h\<lparr>tensor_tag_to_state := d\<rparr> in
            if current_group h1 < num_offload_group h1 \<and> tensor_need_offloading_checker h1 H t
            then
              (if is_quantized_tensor
               then
                 (case dict_append (tensor_tag_to_buf h1) tensor_tag t of
                    Inl e \<Rightarrow> Inl e
                  | Inr b \<Rightarrow>
                      (case clear tensor H of
                         Inl e \<Rightarrow> Inl e
                       | Inr H1 \<Rightarrow> Inr (h1\<lparr>tensor_tag_to_buf := b\<rparr>, H1)))
               else Inr (h1\<lparr>tensor_tag_to_buf :=
                               AList.update tensor_tag t (tensor_tag_to_buf h1)\<rparr>, H))
            else Inr (h1, H)))"

definition async_tensor_push :: "ref \<Rightarrow> aworld \<Rightarrow> error + (tag \<times> aworld)" where
  "async_tensor_push tensor w =
     (case w of (h, H) \<Rightarrow>
       let torch_stray_tensor = isinstance_stray (cls (objs H tensor));
           is_quantized_tensor = isinstance_QuantizedTensorBase (cls (objs H tensor))
       in if \<not> torch_stray_tensor then
            (let tensor_tag = (current_group h, tensor_count_current_group h);
                 h1 = h\<lparr>tensor_count_current_group := tensor_count_current_group h + 1\<rparr>
             in if map_of (tensor_tag_to_state h1) tensor_tag \<noteq> None then Inl AssertionError
                else
                  (case
                     (if is_quantized_tensor then
                        (let (tensor_list, H1) = prepare_for_saving tensor H;
                             h2 = h1\<lparr>tensor_tag_to_state :=
                                        AList.update tensor_tag (PList []) (tensor_tag_to_state h1),
                                     tensor_tag_to_buf :=
                                        AList.update tensor_tag (PList []) (tensor_tag_to_buf h1)\<rparr>;
                             h3 = (if tensor \<in> snd ` set (fp8_tensor_object_map h2)
                                   then h2\<lparr>dereferencing_list := dereferencing_list h2 @ [tensor_tag]\<rparr>
                                   else h2);
                             h4 = h3\<lparr>fp8_tensor_object_map :=
                                        AList.update tensor_tag tensor (fp8_tensor_object_map h3)\<rparr>;
                             h5 = (if isinstance_Float8Tensor (cls (objs H1 tensor))
                                   then h4\<lparr>float8_transpose_cache_valid :=
                                             AList.update tensor_tag (transpose_invalid (objs H1 tensor))
                                               (float8_transpose_cache_valid h4)\<rparr>
                                   else h4)
                         in for_each (push_tensor True tensor tensor_tag) tensor_list (h5, H1))
                      else for_each (push_tensor False tensor tensor_tag) [PObj tensor] (h1, H)) of
                     Inl e \<Rightarrow> Inl e
                   | Inr w1 \<Rightarrow> Inr (tensor_tag, w1)))
          else
            (let tensor_tag = (- 1, torch_tensor_count h)
             in Inr (tensor_tag,
                     h\<lparr>torch_tensor_count := torch_tensor_count h + 1,
                       tensor_tag_to_state :=
                         AList.update tensor_tag (PObj tensor) (tensor_tag_to_state h)\<rparr>, H)))"

text \<open>
  The step shared by \<^verbatim>\<open>tensor_pop\<close> and \<^verbatim>\<open>bulk_reload_group\<close>: a tag in
  \<^verbatim>\<open>dereferencing_list\<close> is removed from it and nothing is restored; otherwise
  \<^verbatim>\<open>restore_from_saved\<close> is called on the object registered under the tag.
\<close>

definition restore_or_skip :: "tag \<Rightarrow> pyval list \<Rightarrow> aworld \<Rightarrow> error + aworld" where
  "restore_or_skip tensor_tag tensor_list w =
     (case w of (h, H) \<Rightarrow>
       if tensor_tag \<in> set (dereferencing_list h)
       then Inr (h\<lparr>dereferencing_list := remove1 tensor_tag (dereferencing_list h)\<rparr>, H)
       else
         (case map_of (fp8_tensor_object_map h) tensor_tag of
            None \<Rightarrow> Inl KeyError
          | Some c \<Rightarrow>
              (case restore_from_saved c tensor_list H of
                 Inl e \<Rightarrow> Inl e
               | Inr H1 \<Rightarrow> Inr (h, H1))))"

definition async_tensor_pop :: "tag \<Rightarrow> aworld \<Rightarrow> error + (pyval \<times> aworld)" where
  "async_tensor_pop tensor_tag w =
     (case w of (h, H) \<Rightarrow>
       case map_of (tensor_tag_to_state h) tensor_tag of
         None \<Rightarrow> Inl AssertionError
       | Some state \<Rightarrow>
           (let h1 = h\<lparr>tensor_tag_to_state := AList.delete tensor_tag (tensor_tag_to_state h)\<rparr>
            in case
                 (case state of
                    PList saved \<Rightarrow>
                      (case restore_or_skip tensor_tag saved (h1, H) of
                         Inl e \<Rightarrow> Inl e
                       | Inr (h2, H2) \<Rightarrow>
                           (case map_of (fp8_tensor_object_map h2) tensor_tag of
                              None \<Rightarrow> Inl KeyError
                            | Some c \<Rightarrow>
                                Inr (PObj c,
                                     h2\<lparr>fp8_tensor_object_map :=
                                          AList.delete tensor_tag (fp8_tensor_object_map h2)\<rparr>,
                                     H2)))
                  | _ \<Rightarrow> Inr (state, h1, H)) of
                 Inl e \<Rightarrow> Inl e
               | Inr (tensor, h3, H3) \<Rightarrow>
                   (case
                      (if double_buffering h3 then
                         (case tensor of
                            PObj r \<Rightarrow> Inr (upd_obj r (\<lambda>ob. ob\<lparr>do_not_clear := Some True\<rparr>) H3)
                          | _ \<Rightarrow> Inl AttributeError)
                       else Inr H3) of
                      Inl e \<Rightarrow> Inl e
                    | Inr H4 \<Rightarrow>
                        (let h4 = h3\<lparr>tensor_tag_to_buf :=
                                       AList.delete tensor_tag (tensor_tag_to_buf h3)\<rparr>
                         in case tensor of
                              PTuple dev cpu_backup \<Rightarrow> Inl AssertionError
                            | _ \<Rightarrow> Inr (tensor, h4, H4)))))"

text \<open>
  \<^verbatim>\<open>bulk_offload_group\<close>.  The outer loop runs over the items of
  \<^verbatim>\<open>tensor_tag_to_state\<close> and assigns only to the key it visits, so it runs
  over the items as they were when the loop started.  The inner loop carries
  the variable \<^verbatim>\<open>state\<close>, which the source overwrites with the result of
  \<^verbatim>\<open>offload\<close>.
\<close>

definition offload_tensor ::
  "bool \<Rightarrow> tag \<Rightarrow> pyval \<Rightarrow> pyval \<times> aworld \<Rightarrow> error + (pyval \<times> aworld)" where
  "offload_tensor is_quantized_tensor tensor_tag tensor_on_device sw =
     (case sw of (state, h, H) \<Rightarrow>
       case (if tensor_need_offloading_checker h H tensor_on_device
             then (case offload tensor_on_device H of
                     Inl e \<Rightarrow> Inl e
                   | Inr (state1, H1) \<Rightarrow> Inr (True, state1, H1))
             else Inr (False, state, H)) of
         Inl e \<Rightarrow> Inl e
       | Inr (tensor_offloaded, state1, H1) \<Rightarrow>
           (case (if is_quantized_tensor
                  then dict_append (tensor_tag_to_state h) tensor_tag
                         (if tensor_offloaded then state1 else tensor_on_device)
                  else Inr (AList.update tensor_tag state1 (tensor_tag_to_state h))) of
              Inl e \<Rightarrow> Inl e
            | Inr d \<Rightarrow> Inr (state1, h\<lparr>tensor_tag_to_state := d\<rparr>, H1)))"

definition bulk_offload_item :: "int \<Rightarrow> tag \<times> pyval \<Rightarrow> aworld \<Rightarrow> error + aworld" where
  "bulk_offload_item group_to_offload item w =
     (case item of (tensor_tag, state) \<Rightarrow>
      case w of (h, H) \<Rightarrow>
       if fst tensor_tag = group_to_offload then
         (case state of
            PTuple dev cpu_backup \<Rightarrow> Inl AssertionError
          | PList tensor_list \<Rightarrow>
              (case for_each (offload_tensor True tensor_tag) tensor_list
                      (state,
                       h\<lparr>tensor_tag_to_state :=
                            AList.update tensor_tag (PList []) (tensor_tag_to_state h)\<rparr>, H) of
                 Inl e \<Rightarrow> Inl e
               | Inr (state1, w1) \<Rightarrow> Inr w1)
          | _ \<Rightarrow>
              (case for_each (offload_tensor False tensor_tag) [state] (state, h, H) of
                 Inl e \<Rightarrow> Inl e
               | Inr (state1, w1) \<Rightarrow> Inr w1))
       else Inr (h, H))"

definition bulk_offload_group :: "int \<Rightarrow> aworld \<Rightarrow> error + aworld" where
  "bulk_offload_group group_to_offload w =
     for_each (bulk_offload_item group_to_offload) (tensor_tag_to_state (fst w)) w"

text \<open>
  The reload double buffer.  \<^verbatim>\<open>torch.empty_like(b) if self.double_buffering
  else None\<close> is appended for every buffer; the first half is built from the
  values of \<^verbatim>\<open>tensor_tag_to_buf\<close> (a list contributes each of its elements), the
  second half from the first.
\<close>

fun append_buffer :: "bool \<Rightarrow> pyval \<Rightarrow> pyval list \<times> store \<Rightarrow> error + (pyval list \<times> store)" where
  "append_buffer db b (acc, H) =
     (if db then
        (case empty_like b H of
           Inl e \<Rightarrow> Inl e
         | Inr (n, H1) \<Rightarrow> Inr (acc @ [n], H1))
      else Inr (acc @ [PNone], H))"

definition append_buffers ::
  "bool \<Rightarrow> pyval list \<Rightarrow> pyval list \<Rightarrow> store \<Rightarrow> error + (pyval list \<times> store)" where
  "append_buffers db bs acc H = for_each (append_buffer db) bs (acc, H)"

definition buf_items :: "(tag \<times> pyval) list \<Rightarrow> pyval list" where
  "buf_items bufs = concat (map (\<lambda>(tensor_tag, buf). case buf of PList bs \<Rightarrow> bs | _ \<Rightarrow> [buf]) bufs)"

text \<open>
  The loop that frees the activation memory of group \<^verbatim>\<open>offloaded_group_count\<close>:
  a buffer with the attribute \<^verbatim>\<open>needs_force_clear\<close> has its storage emptied, and
  the handler's reference becomes \<^verbatim>\<open>None\<close>.
\<close>

fun hasattr_needs_force_clear :: "store \<Rightarrow> pyval \<Rightarrow> bool" where
  "hasattr_needs_force_clear H (PObj r) = (needs_force_clear (objs H r) \<noteq> None)"
| "hasattr_needs_force_clear H _ = False"

fun release_buf :: "int \<Rightarrow> tag \<times> pyval \<Rightarrow> aworld \<Rightarrow> error + aworld" where
  "release_buf g (tensor_tag, tensor_buf) (h, H) =
     (if fst tensor_tag = g then
        Inr (h\<lparr>tensor_tag_to_buf := AList.update tensor_tag PNone (tensor_tag_to_buf h)\<rparr>,
             (case tensor_buf of
                PObj r \<Rightarrow> if hasattr_needs_force_clear H tensor_buf then set_data_empty r H else H
              | _ \<Rightarrow> H))
      else Inr (h, H))"

definition release_bufs :: "int \<Rightarrow> aworld \<Rightarrow> error + aworld" where
  "release_bufs g w = for_each (release_buf g) (tensor_tag_to_buf (fst w)) w"

text \<open>
  \<^verbatim>\<open>synchronize_on_group_commit_forward\<close> is three blocks in sequence: the
  kick-off for the first group, the window step, and the second half of the
  double buffer on the last layer.
\<close>

definition first_group_block :: "int \<Rightarrow> aworld \<Rightarrow> error + aworld" where
  "first_group_block cur w =
     (if cur = 0 then
        (case (case w of (h, H) \<Rightarrow>
                 if \<not> double_buffer_created h then
                   (case append_buffers (double_buffering h) (buf_items (tensor_tag_to_buf h))
                           (fst (reload_double_buffer h)) H of
                      Inl e \<Rightarrow> Inl e
                    | Inr (b0, H1) \<Rightarrow>
                        Inr (h\<lparr>reload_double_buffer := (b0, snd (reload_double_buffer h))\<rparr>, H1))
                 else Inr (h, H)) of
           Inl e \<Rightarrow> Inl e
         | Inr w1 \<Rightarrow> bulk_offload_group cur w1)
      else Inr w)"

definition window_block :: "int \<Rightarrow> aworld \<Rightarrow> error + aworld" where
  "window_block cur w =
     (case w of (h, H) \<Rightarrow>
       case map_of (layer_window_map h) (offloaded_group_count h) of
         None \<Rightarrow> Inl KeyError
       | Some window \<Rightarrow>
           if window = cur then
             (case release_bufs (offloaded_group_count h) (h, H) of
                Inl e \<Rightarrow> Inl e
              | Inr (h3, H3) \<Rightarrow>
                  (case (if offloaded_group_count h3 < num_offload_group h3 - 1
                         then bulk_offload_group (offloaded_group_count h3 + 1) (h3, H3)
                         else Inr (h3, H3)) of
                     Inl e \<Rightarrow> Inl e
                   | Inr (h4, H4) \<Rightarrow>
                       Inr (h4\<lparr>offloaded_group_count := offloaded_group_count h4 + 1\<rparr>, H4)))
           else Inr (h, H))"

definition second_buffer_block :: "int \<Rightarrow> aworld \<Rightarrow> error + aworld" where
  "second_buffer_block cur w =
     (case w of (h, H) \<Rightarrow>
       if \<not> double_buffer_created h \<and> cur = num_layers h - 1 then
         (case append_buffers (double_buffering h) (fst (reload_double_buffer h))
                 (snd (reload_double_buffer h)) H of
            Inl e \<Rightarrow> Inl e
          | Inr (b1, H1) \<Rightarrow>
              Inr (h\<lparr>reload_double_buffer := (fst (reload_double_buffer h), b1),
                     double_buffer_created := True\<rparr>, H1))
       else Inr (h, H))"

definition synchronize_on_group_commit_forward :: "int \<Rightarrow> aworld \<Rightarrow> error + aworld" where
  "synchronize_on_group_commit_forward cur w =
     (case first_group_block cur w of
        Inl e \<Rightarrow> Inl e
      | Inr w1 \<Rightarrow>
          (case window_block cur w1 of
             Inl e \<Rightarrow> Inl e
           | Inr w2 \<Rightarrow> second_buffer_block cur w2))"

definition async_on_group_commit_forward :: "aworld \<Rightarrow> error + aworld" where
  "async_on_group_commit_forward w =
     (case synchronize_on_group_commit_forward (current_group (fst w)) w of
        Inl e \<Rightarrow> Inl e
      | Inr (h1, H1) \<Rightarrow> Inr (sync_on_group_commit_forward h1, H1))"

text \<open>
  \<^verbatim>\<open>bulk_reload_group\<close>.  \<^verbatim>\<open>reload_double_buffer[double_buffer_idx][buffer_idx]\<close>
  is read only when double buffering is on and raises \<^verbatim>\<open>IndexError\<close> past the
  end of the list.
\<close>

definition get_reload_buffer :: "async_handler \<Rightarrow> int \<Rightarrow> nat \<Rightarrow> error + pyval" where
  "get_reload_buffer h double_buffer_idx buffer_idx =
     (if double_buffering h then
        (let bufs = (if double_buffer_idx = 0 then fst (reload_double_buffer h)
                     else snd (reload_double_buffer h))
         in if buffer_idx < length bufs then Inr (bufs ! buffer_idx) else Inl IndexError)
      else Inr PNone)"

definition reload_tensor ::
  "async_handler \<Rightarrow> int \<Rightarrow> pyval \<Rightarrow> pyval list \<times> nat \<times> store
     \<Rightarrow> error + (pyval list \<times> nat \<times> store)" where
  "reload_tensor h double_buffer_idx state_tuple acc =
     (case acc of (tensor_list, buffer_idx, H) \<Rightarrow>
       case get_reload_buffer h double_buffer_idx buffer_idx of
         Inl e \<Rightarrow> Inl e
       | Inr reload_buffer \<Rightarrow>
           (case state_tuple of
              PTuple dev cpu_backup \<Rightarrow>
                (case reload state_tuple (Some True) reload_buffer H of
                   Inl e \<Rightarrow> Inl e
                 | Inr (t, H1) \<Rightarrow> Inr (tensor_list @ [t], buffer_idx + 1, H1))
            | _ \<Rightarrow> Inr (tensor_list @ [state_tuple], buffer_idx, H)))"

text \<open>The write-back of the Float8 flag and the move of the object into the slot.\<close>

definition finish_composite :: "tag \<Rightarrow> aworld \<Rightarrow> error + aworld" where
  "finish_composite tensor_label w =
     (case w of (h, H) \<Rightarrow>
       case map_of (fp8_tensor_object_map h) tensor_label of
         None \<Rightarrow> Inl KeyError
       | Some c \<Rightarrow>
           (case (if isinstance_Float8Tensor (cls (objs H c)) then
                    (case map_of (float8_transpose_cache_valid h) tensor_label of
                       None \<Rightarrow> Inl KeyError
                     | Some flag \<Rightarrow>
                         Inr (h\<lparr>float8_transpose_cache_valid :=
                                  AList.delete tensor_label (float8_transpose_cache_valid h)\<rparr>,
                              upd_obj c (\<lambda>ob. ob\<lparr>transpose_invalid := flag\<rparr>) H))
                  else Inr (h, H)) of
              Inl e \<Rightarrow> Inl e
            | Inr (h1, H1) \<Rightarrow>
                Inr (h1\<lparr>tensor_tag_to_state :=
                          AList.update tensor_label (PObj c) (tensor_tag_to_state h1),
                        fp8_tensor_object_map :=
                          AList.delete tensor_label (fp8_tensor_object_map h1)\<rparr>, H1)))"

definition bulk_reload_item ::
  "int \<Rightarrow> int \<Rightarrow> tag \<times> pyval \<Rightarrow> nat \<times> aworld \<Rightarrow> error + (nat \<times> aworld)" where
  "bulk_reload_item group_to_reload double_buffer_idx item iw =
     (case item of (tensor_label, state) \<Rightarrow>
      case iw of (buffer_idx, h, H) \<Rightarrow>
       if fst tensor_label = group_to_reload then
         (case get_reload_buffer h double_buffer_idx buffer_idx of
            Inl e \<Rightarrow> Inl e
          | Inr reload_buffer \<Rightarrow>
              (case state of
                 PTuple dev cpu_backup \<Rightarrow>
                   (case reload state (Some True) reload_buffer H of
                      Inl e \<Rightarrow> Inl e
                    | Inr (recovered_tensor, H1) \<Rightarrow>
                        Inr (buffer_idx + 1,
                             h\<lparr>tensor_tag_to_state :=
                                  AList.update tensor_label recovered_tensor
                                    (tensor_tag_to_state h)\<rparr>,
                             H1))
               | PList states \<Rightarrow>
                   (case for_each (reload_tensor h double_buffer_idx) states
                           ([], buffer_idx, H) of
                      Inl e \<Rightarrow> Inl e
                    | Inr (tensor_list, buffer_idx1, H1) \<Rightarrow>
                        (case restore_or_skip tensor_label tensor_list (h, H1) of
                           Inl e \<Rightarrow> Inl e
                         | Inr w2 \<Rightarrow>
                             (case finish_composite tensor_label w2 of
                                Inl e \<Rightarrow> Inl e
                              | Inr w3 \<Rightarrow> Inr (buffer_idx1, w3))))
               | _ \<Rightarrow> Inr (buffer_idx, h, H)))
       else Inr (buffer_idx, h, H))"

definition bulk_reload_group :: "int \<Rightarrow> aworld \<Rightarrow> error + aworld" where
  "bulk_reload_group group_to_reload w =
     (if \<not> group_to_reload < num_offload_group (fst w) then Inl AssertionError
      else
        (case for_each (bulk_reload_item group_to_reload (group_to_reload mod 2))
                (tensor_tag_to_state (fst w)) (0, w) of
           Inl e \<Rightarrow> Inl e
         | Inr (buffer_idx, w1) \<Rightarrow> Inr w1))"

definition async_on_group_commit_backward :: "aworld \<Rightarrow> error + aworld" where
  "async_on_group_commit_backward w =
     (case w of (h, H) \<Rightarrow>
       let h1 = h\<lparr>current_group := current_group h - 1\<rparr>
       in if \<not> current_group h1 \<ge> 0 then Inl AssertionError
          else
            (case map_of (layer_window_map h1) (offloaded_group_count h1 - 1) of
               None \<Rightarrow> Inl KeyError
             | Some window \<Rightarrow>
                 (case (if window = current_group h1 then
                          (case bulk_reload_group (offloaded_group_count h1 - 1) (h1, H) of
                             Inl e \<Rightarrow> Inl e
                           | Inr (h2, H2) \<Rightarrow>
                               Inr (h2\<lparr>offloaded_group_count :=
                                         offloaded_group_count h2
                                           - (if offloaded_group_count h2 > 1 then 1 else 0)\<rparr>, H2))
                        else Inr (h1, H)) of
                    Inl e \<Rightarrow> Inl e
                  | Inr (h3, H3) \<Rightarrow>
                      Inr (if current_group h3 = 0 then h3\<lparr>offloaded_group_count := 0\<rparr> else h3,
                           H3))))"

section \<open>The scoped hook, the commit barrier and the factory\<close>

text \<open>
  \<^verbatim>\<open>CpuOffloadSavedTensorHook.__enter__\<close> and \<^verbatim>\<open>__exit__\<close> act on the module's
  global \<^verbatim>\<open>CPUOffloadEnabled\<close>, on the hook's \<^verbatim>\<open>inside_context\<close> and on
  PyTorch's stack of default saved-tensor hooks, kept here as its depth;
  popping the empty stack is an error of PyTorch.  The hook of class
  \<^verbatim>\<open>CpuOffloadHookWithOffloadHandler\<close> also holds its handler.
\<close>

record globals =
  CPUOffloadEnabled :: bool
  saved_tensors_default_hooks :: nat

record hook =
  inside_context :: bool
  offload_handler :: async_handler

definition hook_enter :: "globals \<times> hook \<Rightarrow> globals \<times> hook" where
  "hook_enter w =
     (case w of (g, k) \<Rightarrow>
        (g\<lparr>CPUOffloadEnabled := True,
           saved_tensors_default_hooks := Suc (saved_tensors_default_hooks g)\<rparr>,
         k\<lparr>inside_context := True\<rparr>))"

definition hook_exit :: "globals \<times> hook \<Rightarrow> error + (globals \<times> hook)" where
  "hook_exit w =
     (case w of (g, k) \<Rightarrow>
        let g1 = g\<lparr>CPUOffloadEnabled := False\<rparr>;
            k1 = k\<lparr>inside_context := False\<rparr>
        in if saved_tensors_default_hooks g1 = 0 then Inl RuntimeError
           else Inr (g1\<lparr>saved_tensors_default_hooks := saved_tensors_default_hooks g1 - 1\<rparr>, k1))"

definition is_cpu_offload_enabled :: "globals \<Rightarrow> bool" where
  "is_cpu_offload_enabled g = CPUOffloadEnabled g"


definition group_commit_backward :: "pyval \<Rightarrow> aworld \<Rightarrow> error + (pyval \<times> aworld)" where
  "group_commit_backward grad_output w =
     (case async_on_group_commit_backward w of Inl e \<Rightarrow> Inl e | Inr w1 \<Rightarrow> Inr (grad_output, w1))"







section \<open>Sessions\<close>

text \<open>
  A session is a list of calls on one handler: the hook's \<^verbatim>\<open>tensor_push\<close> and
  \<^verbatim>\<open>tensor_pop\<close>, and the two halves of \<^verbatim>\<open>GroupCommitFunction\<close>.  Running it
  stops at the first exception and otherwise returns what each call returned.
\<close>

datatype op = Push ref | Pop tag | CommitForward | CommitBackward

datatype event = Pushed ref tag | Popped tag pyval | Committed

fun run_ops ::
  "(op \<Rightarrow> 'w \<Rightarrow> error + (event \<times> 'w)) \<Rightarrow> op list \<Rightarrow> 'w \<Rightarrow> error + (event list \<times> 'w)" where
  "run_ops step [] w = Inr ([], w)"
| "run_ops step (x # xs) w =
     (case step x w of
        Inl e \<Rightarrow> Inl e
      | Inr (ev, w1) \<Rightarrow>
          (case run_ops step xs w1 of
             Inl e \<Rightarrow> Inl e
           | Inr (evs, w2) \<Rightarrow> Inr (ev # evs, w2)))"

fun sync_step ::
  "op \<Rightarrow> 'a sync_handler_scheme \<times> store \<Rightarrow> error + (event \<times> 'a sync_handler_scheme \<times> store)" where
  "sync_step (Push t) w =
     (case sync_tensor_push t w of Inl e \<Rightarrow> Inl e | Inr (tg, w1) \<Rightarrow> Inr (Pushed t tg, w1))"
| "sync_step (Pop tg) w =
     (case sync_tensor_pop tg w of Inl e \<Rightarrow> Inl e | Inr (v, w1) \<Rightarrow> Inr (Popped tg v, w1))"
| "sync_step CommitForward (h, H) = Inr (Committed, sync_on_group_commit_forward h, H)"
| "sync_step CommitBackward (h, H) =
     (case sync_on_group_commit_backward h of
        Inl e \<Rightarrow> Inl e
      | Inr h1 \<Rightarrow> Inr (Committed, h1, H))"

fun async_step :: "op \<Rightarrow> aworld \<Rightarrow> error + (event \<times> aworld)" where
  "async_step (Push t) w =
     (case async_tensor_push t w of Inl e \<Rightarrow> Inl e | Inr (tg, w1) \<Rightarrow> Inr (Pushed t tg, w1))"
| "async_step (Pop tg) w =
     (case async_tensor_pop tg w of Inl e \<Rightarrow> Inl e | Inr (v, w1) \<Rightarrow> Inr (Popped tg v, w1))"
| "async_step CommitForward w =
     (case async_on_group_commit_forward w of Inl e \<Rightarrow> Inl e | Inr w1 \<Rightarrow> Inr (Committed, w1))"
| "async_step CommitBackward w =
     (case async_on_group_commit_backward w of Inl e \<Rightarrow> Inl e | Inr w1 \<Rightarrow> Inr (Committed, w1))"

section \<open>Example objects\<close>

text \<open>
  A store with a plain tensor (0), a tensor marked for offload (1), a symbolic
  tensor (2), a Float8 tensor (3) over the data tensors 4 and 5, and a tensor
  of another subclass (6); and a hook whose handler still holds entries.
\<close>

definition example_objs :: "ref \<Rightarrow> pyobj" where
  "example_objs r =
     (if r = 1 then (new_tensor (CUDA 0) [2] [3, 4] False)\<lparr>activation_offloading := Some True\<rparr>
      else if r = 2 then (new_tensor (CUDA 0) [1] [0] False)\<lparr>cls := FakeTensor\<rparr>
      else if r = 3 then (new_tensor (CUDA 0) [2] [] False)
             \<lparr>cls := Float8Tensor, underlying := [PObj 4, PNone, PObj 5]\<rparr>
      else if r = 4 then (new_tensor (CUDA 0) [2] [5, 6] False)
             \<lparr>activation_offloading := Some True, needs_force_clear := Some True\<rparr>
      else if r = 6 then (new_tensor (CUDA 0) [1] [8] False)\<lparr>cls := TensorSubclass\<rparr>
      else new_tensor (CUDA 0) [2] [7, 9] False)"

definition example_store :: store where
  "example_store =
     \<lparr>objs = example_objs, next_ref = 7, restore_log = [], float8_clear_flag = (\<lambda>_. True)\<rparr>"

definition leaking_hook :: hook where
  "leaking_hook =
     \<lparr>inside_context = True,
      offload_handler =
        (async_init 1 1 tensor_need_offloading_checker_activations False)
          \<lparr>tensor_tag_to_state := [((0, 0), PObj 0)],
           tensor_tag_to_buf := [((0, 0), PNone)],
           fp8_tensor_object_map := [((0, 1), 3)]\<rparr>\<rparr>"

text \<open>
  \<open>frame H H'\<close>: every object allocated in \<open>H\<close> is unchanged in \<open>H'\<close>, and
  \<open>H'\<close> has allocated no fewer references.
\<close>

definition frame :: "store \<Rightarrow> store \<Rightarrow> bool" where
  "frame H H' \<longleftrightarrow> next_ref H \<le> next_ref H' \<and> (\<forall>r < next_ref H. objs H' r = objs H r)"


section \<open>Notions used in the proofs\<close>

text \<open>
  \<open>ctrl\<close> collects the handler's configuration and counters, which the loops
  over the dictionaries leave alone.  \<open>window L G i\<close> is the closed form of
  entry \<open>i\<close> of the window plan.  \<open>fwd_inv\<close> relates \<^verbatim>\<open>offloaded_group_count\<close> to
  \<^verbatim>\<open>current_group\<close> during the forward pass, \<open>bwd_inv\<close> during the backward
  pass; \<open>no_tensors\<close> and \<open>bwd_run_inv\<close> describe a session without pushes.
\<close>

definition ctrl ::
  "async_handler \<Rightarrow> (int \<times> int \<times> (int \<times> int) list \<times> bool) \<times> (int \<times> int \<times> int \<times> int)" where
  "ctrl h = ((num_offload_group h, num_layers h, layer_window_map h, double_buffering h),
             (current_group h, tensor_count_current_group h, torch_tensor_count h,
              offloaded_group_count h))"

definition window :: "int \<Rightarrow> int \<Rightarrow> int \<Rightarrow> int" where
  "window L G i = (L div G) * (i + 1) - 1 + min (i + 1) (L mod G)"

definition fwd_inv :: "int \<Rightarrow> int \<Rightarrow> async_handler \<Rightarrow> bool" where
  "fwd_inv L G h \<longleftrightarrow>
     num_offload_group h = G \<and> num_layers h = L
     \<and> layer_window_map h = make_layer_window_map L G
     \<and> 0 \<le> offloaded_group_count h \<and> offloaded_group_count h \<le> G
     \<and> (0 < offloaded_group_count h \<longrightarrow> window L G (offloaded_group_count h - 1) < current_group h)
     \<and> (offloaded_group_count h < G \<longrightarrow> current_group h \<le> window L G (offloaded_group_count h))"

definition bwd_inv :: "async_handler \<Rightarrow> bool" where
  "bwd_inv h \<longleftrightarrow> 0 \<le> offloaded_group_count h
     \<and> (current_group h = 0 \<longrightarrow> offloaded_group_count h = 0)"

definition no_tensors :: "async_handler \<Rightarrow> bool" where
  "no_tensors h \<longleftrightarrow> tensor_tag_to_state h = [] \<and> tensor_tag_to_buf h = []
     \<and> reload_double_buffer h = ([], [])"

definition bwd_run_inv :: "int \<Rightarrow> int \<Rightarrow> async_handler \<Rightarrow> bool" where
  "bwd_run_inv L G h \<longleftrightarrow>
     num_offload_group h = G \<and> layer_window_map h = make_layer_window_map L G
     \<and> (1 \<le> current_group h \<longrightarrow> 1 \<le> offloaded_group_count h \<and> offloaded_group_count h \<le> G)"

text \<open>
  \<open>keys h\<close> is the list of tags in \<^verbatim>\<open>tensor_tag_to_state\<close>, in insertion order;
  \<open>pushed_tags\<close> collects the tags a session's pushes returned; \<open>tags_inv\<close>
  says that \<^verbatim>\<open>current_group\<close> is not negative and that every stray tag in use is
  below the stray counter.
\<close>

abbreviation keys :: "'a sync_handler_scheme \<Rightarrow> tag list" where
  "keys h \<equiv> map fst (tensor_tag_to_state h)"

fun pushed_tags :: "event list \<Rightarrow> tag list" where
  "pushed_tags [] = []"
| "pushed_tags (Pushed t tg # es) = tg # pushed_tags es"
| "pushed_tags (e # es) = pushed_tags es"

definition has_key :: "'k \<Rightarrow> 'k list \<Rightarrow> bool" where
  "has_key k ks \<longleftrightarrow> k \<in> set ks"

definition tags_inv :: "tag list \<Rightarrow> async_handler \<Rightarrow> bool" where
  "tags_inv ks h \<longleftrightarrow> 0 \<le> current_group h
     \<and> (\<forall>tg \<in> set ks. fst tg = - 1 \<longrightarrow> snd tg < torch_tensor_count h)"

text \<open>
  \<open>fresh_pushes live evs\<close> runs through the events of a session with the list \<open>live\<close>
  of the tags that were returned and not popped since: every push returned a tag that is
  not in that list.  A stray tag is a tag \<^verbatim>\<open>(-1, n)\<close>.
\<close>

fun fresh_pushes :: "tag list \<Rightarrow> event list \<Rightarrow> bool" where
  "fresh_pushes live [] = True"
| "fresh_pushes live (Pushed t tg # es) = (\<not> has_key tg live \<and> fresh_pushes (live @ [tg]) es)"
| "fresh_pushes live (Popped tg v # es) = fresh_pushes (removeAll tg live) es"
| "fresh_pushes live (Committed # es) = fresh_pushes live es"

definition is_stray_tag :: "tag \<Rightarrow> bool" where
  "is_stray_tag tg \<longleftrightarrow> fst tg = - 1"

text \<open>
  Frames of the forward commit.  \<open>clsframe\<close>: the later store has every object of the
  earlier one, with its class.  \<open>regs\<close>: the registrations of a handler that a forward
  commit never writes.  \<open>fwd_keep t\<close>: a step that leaves the slot of tag \<open>t\<close> and the
  registrations alone.
\<close>

definition clsframe :: "store \<Rightarrow> store \<Rightarrow> bool" where
  "clsframe H H' \<longleftrightarrow> next_ref H \<le> next_ref H'
     \<and> (\<forall>r < next_ref H. cls (objs H' r) = cls (objs H r))"

definition regs :: "async_handler \<Rightarrow> (tag \<times> ref) list \<times> (tag \<times> bool) list \<times> tag list" where
  "regs h = (fp8_tensor_object_map h, float8_transpose_cache_valid h, dereferencing_list h)"

definition is_list_at :: "async_handler \<Rightarrow> tag \<Rightarrow> bool" where
  "is_list_at h t \<longleftrightarrow> (\<exists>xs. map_of (tensor_tag_to_state h) t = Some (PList xs))"

definition fwd_keep :: "tag \<Rightarrow> aworld \<Rightarrow> aworld \<Rightarrow> bool" where
  "fwd_keep t w w' \<longleftrightarrow> regs (fst w') = regs (fst w) \<and> clsframe (snd w) (snd w')
     \<and> (is_list_at (fst w) t \<longrightarrow> is_list_at (fst w') t)"

section \<open>Properties of the window plan\<close>

lemmas ev = example_store_def example_objs_def new_tensor_def alloc_def upd_obj_def
  set_data_empty_def copy_into_def tensor_to_def empty_like_def prepare_for_saving_def
  restore_from_saved_def clear_def get_data_tensors_def offload_def reload_def
  sync_init_def sync_on_group_commit_forward_def sync_on_group_commit_backward_def
  sync_tensor_push_def sync_tensor_pop_def async_init_def dict_append_def
  async_tensor_push_def restore_or_skip_def async_tensor_pop_def bulk_offload_group_def
  push_tensor_def offload_tensor_def bulk_offload_item_def append_buffers_def release_bufs_def
  reload_tensor_def bulk_reload_item_def
  buf_items_def first_group_block_def window_block_def second_buffer_block_def
  synchronize_on_group_commit_forward_def async_on_group_commit_forward_def
  get_reload_buffer_def finish_composite_def bulk_reload_group_def
  async_on_group_commit_backward_def make_layer_window_map_def Let_def


lemma window_loop_lookup:
  "0 \<le> a \<Longrightarrow> 0 < G \<Longrightarrow> c = min a (L mod G) \<Longrightarrow>
   map_of (fst (window_loop L G [a..b] (m, c))) i =
     (if a \<le> i \<and> i \<le> b
      then Some ((L div G) * (i + 1) - 1 + min (i + 1) (L mod G))
      else map_of m i)"
proof (induction "nat (b + 1 - a)" arbitrary: a m c)
  case 0
  then have "[a..b] = []" by simp
  with 0 show ?case by auto
next
  case (Suc n)
  then have ab: "a \<le> b" by linarith
  then have range: "[a..b] = a # [a + 1..b]" by (simp add: upto_rec1)
  have n: "n = nat (b + 1 - (a + 1))" using Suc.hyps(2) by linarith
  have r0: "0 \<le> L mod G" using Suc.prems(2) by simp
  show ?case
  proof (cases "a < L mod G")
    case True
    then have c': "a + 1 = min (a + 1) (L mod G)" by simp
    have "map_of (fst (window_loop L G [a + 1..b]
            (AList.update a ((L div G) * (a + 1) - 1 + (a + 1)) m, a + 1))) i =
          (if a + 1 \<le> i \<and> i \<le> b
           then Some ((L div G) * (i + 1) - 1 + min (i + 1) (L mod G))
           else map_of (AList.update a ((L div G) * (a + 1) - 1 + (a + 1)) m) i)"
      using Suc.hyps(1)[OF n _ Suc.prems(2) c'] Suc.prems(1) by simp
    with True ab show ?thesis
      by (auto simp: range Let_def update_conv')
  next
    case False
    then have cr: "c = L mod G" using Suc.prems(3) by simp
    then have c': "c = min (a + 1) (L mod G)" using False by simp
    have "map_of (fst (window_loop L G [a + 1..b]
            (AList.update a ((L div G) * (a + 1) - 1 + c) m, c))) i =
          (if a + 1 \<le> i \<and> i \<le> b
           then Some ((L div G) * (i + 1) - 1 + min (i + 1) (L mod G))
           else map_of (AList.update a ((L div G) * (a + 1) - 1 + c) m) i)"
      using Suc.hyps(1)[OF n _ Suc.prems(2) c'] Suc.prems(1) by simp
    with False ab cr show ?thesis
      by (auto simp: range Let_def update_conv')
  qed
qed

lemma layer_window_lookup:
  assumes "0 < G"
  shows "map_of (make_layer_window_map L G) i =
     (if 0 \<le> i \<and> i < G
      then Some ((L div G) * (i + 1) - 1 + min (i + 1) (L mod G))
      else None)"
  using window_loop_lookup[of 0 G 0 L "G - 1" "[]" i] assms
  by (auto simp: make_layer_window_map_def)

text \<open>
  Claim C4.  For \<open>1 \<le> G \<le> L\<close> the constructor's window plan has an entry for
  every \<open>i\<close> in \<open>0..G-1\<close>, namely \<open>floor(L/G) * (i+1) - 1\<close> plus one for each of
  the first \<open>L mod G\<close> windows up to and including window \<open>i\<close> (the stretched
  windows); the entries are strictly increasing in \<open>i\<close>; and the last entry is
  \<open>L - 1\<close>, so the remainder is absorbed exactly.
\<close>

theorem layer_window_plan:
  assumes "1 \<le> G" and "G \<le> L"
  shows "(\<forall>i. 0 \<le> i \<and> i < G \<longrightarrow>
            map_of (make_layer_window_map L G) i =
              Some ((L div G) * (i + 1) - 1 + (if i < L mod G then i + 1 else L mod G)))
       \<and> (\<forall>i j vi vj. i < j \<and> map_of (make_layer_window_map L G) i = Some vi
              \<and> map_of (make_layer_window_map L G) j = Some vj \<longrightarrow> vi < vj)
       \<and> map_of (make_layer_window_map L G) (G - 1) = Some (L - 1)"
proof -
  let ?q = "L div G" and ?r = "L mod G"
  have G0: "0 < G" using assms by simp
  have "G div G \<le> L div G" using assms by (intro zdiv_mono1) auto
  then have q1: "1 \<le> ?q" using G0 by simp
  have r: "0 \<le> ?r" "?r < G" using G0 by simp_all
  have entry: "map_of (make_layer_window_map L G) i =
      Some (?q * (i + 1) - 1 + (if i < ?r then i + 1 else ?r))"
    if "0 \<le> i" "i < G" for i
    using that layer_window_lookup[OF G0, of L i] by (simp add: min_def)
  have mono: "vi < vj"
    if "i < j" "map_of (make_layer_window_map L G) i = Some vi"
       "map_of (make_layer_window_map L G) j = Some vj" for i j vi vj
  proof -
    have i: "0 \<le> i \<and> i < G" and j: "0 \<le> j \<and> j < G"
      using that layer_window_lookup[OF G0, of L i] layer_window_lookup[OF G0, of L j]
      by (auto split: if_splits)
    have vi: "vi = ?q * (i + 1) - 1 + min (i + 1) ?r"
      and vj: "vj = ?q * (j + 1) - 1 + min (j + 1) ?r"
      using that i j layer_window_lookup[OF G0, of L i] layer_window_lookup[OF G0, of L j]
      by auto
    have "?q * (i + 1) < ?q * (j + 1)"
      using q1 that(1) by (intro mult_strict_left_mono) auto
    moreover have "min (i + 1) ?r \<le> min (j + 1) ?r" using that(1) by simp
    ultimately show ?thesis using vi vj by linarith
  qed
  have "?q * G + ?r = L" by (simp add: mult.commute)
  then have last: "map_of (make_layer_window_map L G) (G - 1) = Some (L - 1)"
    using entry[of "G - 1"] G0 r by (simp add: algebra_simps)
  show ?thesis using entry mono last by blast
qed

theorem layer_window_plan_witness:
  "map_of (make_layer_window_map 7 3) 0 = Some 2
   \<and> map_of (make_layer_window_map 7 3) 1 = Some 4
   \<and> map_of (make_layer_window_map 7 3) 2 = Some 6"
proof -
  have h: "(1::int) \<le> 3" "(3::int) \<le> 7" by simp_all
  show ?thesis using layer_window_plan[OF h] by simp
qed


section \<open>Marking\<close>





section \<open>Scope exit\<close>

text \<open>
  Claim C8, as amended.  \<^verbatim>\<open>__exit__\<close> does not look at the handler.  Leaving
  a scope that was entered always succeeds: it clears \<^verbatim>\<open>CPUOffloadEnabled\<close> and
  \<^verbatim>\<open>inside_context\<close>, unregisters the saved-tensor hooks and leaves the handler,
  with whatever its maps hold, as it was.
\<close>

theorem hook_exit_after_enter:
  "hook_exit (hook_enter (g, k)) = Inr (g\<lparr>CPUOffloadEnabled := False\<rparr>, k\<lparr>inside_context := False\<rparr>)"
  by (simp add: hook_exit_def hook_enter_def Let_def)

text \<open>
  The claim as stated fails: with entries left in all three maps the exit
  returns normally.
\<close>

theorem hook_exit_leak_counterexample:
  "tensor_tag_to_state (offload_handler leaking_hook) \<noteq> []
   \<and> tensor_tag_to_buf (offload_handler leaking_hook) \<noteq> []
   \<and> fp8_tensor_object_map (offload_handler leaking_hook) \<noteq> []
   \<and> hook_exit (\<lparr>CPUOffloadEnabled = True, saved_tensors_default_hooks = 1\<rparr>, leaking_hook) =
       Inr (\<lparr>CPUOffloadEnabled = False, saved_tensors_default_hooks = 0\<rparr>,
            leaking_hook\<lparr>inside_context := False\<rparr>)"
  by (simp add: hook_exit_def leaking_hook_def Let_def)

section \<open>Round trip through the synchronous handler\<close>

lemma frame_refl: "frame H H"
  by (simp add: frame_def)

lemma frame_trans: "frame H H1 \<Longrightarrow> frame H1 H2 \<Longrightarrow> frame H H2"
  by (auto simp: frame_def)

lemma offload_frame:
  assumes "offload v H = Inr (st, H')"
  shows "frame H H'"
  using assms
  by (auto simp: offload_def alloc_def copy_into_def upd_obj_def frame_def new_tensor_def Let_def
           split: pyval.splits)

lemma offload_result:
  assumes "offload (PObj src) H = Inr (st, H')" "src < next_ref H"
  shows "\<exists>cb. st = PTuple (device (objs H src)) cb \<and> cb < next_ref H'
     \<and> payload (objs H' cb) = payload (objs H src) \<and> shape (objs H' cb) = shape (objs H src)"
  using assms
  by (auto simp: offload_def alloc_def copy_into_def upd_obj_def new_tensor_def Let_def)

lemma reload_none:
  assumes "cb < next_ref H"
  shows "\<exists>r H'. reload (PTuple dev cb) nb PNone H = Inr (PObj r, H') \<and> frame H H'
     \<and> payload (objs H' r) = payload (objs H cb) \<and> shape (objs H' r) = shape (objs H cb)
     \<and> device (objs H' r) = dev"
  using assms
  by (auto simp: reload_def tensor_to_def alloc_def frame_def new_tensor_def Let_def)

lemma reload_none_frame:
  assumes "reload st nb PNone H = Inr (v, H')"
  shows "frame H H'"
  using assms
  by (auto simp: reload_def tensor_to_def alloc_def frame_def new_tensor_def Let_def split: pyval.splits if_splits)

lemma sync_step_frame:
  assumes "sync_step x (h, H) = Inr (ev, h', H')"
  shows "frame H H'"
  using assms
  by (cases x)
     (auto simp: sync_tensor_push_def sync_tensor_pop_def Let_def frame_refl
         sync_on_group_commit_backward_def
         dest: offload_frame reload_none_frame
         split: if_splits sum.splits prod.splits option.splits pyval.splits)

lemma sync_step_slot:
  assumes "sync_step x (h, H) = Inr (ev, h', H')" "x \<noteq> Pop tg"
    "map_of (tensor_tag_to_state h) tg = Some v"
  shows "map_of (tensor_tag_to_state h') tg = Some v"
  using assms
  by (cases x)
     (auto simp: sync_tensor_push_def sync_tensor_pop_def Let_def
         sync_on_group_commit_backward_def sync_on_group_commit_forward_def
         update_conv' delete_conv'
         split: if_splits sum.splits prod.splits option.splits pyval.splits)

lemma sync_run_keeps:
  assumes "run_ops sync_step ops (h, H) = Inr (evs, h', H')" "Pop tg \<notin> set ops"
    "map_of (tensor_tag_to_state h) tg = Some v"
  shows "map_of (tensor_tag_to_state h') tg = Some v \<and> frame H H'"
  using assms
proof (induction ops arbitrary: h H evs)
  case Nil
  then show ?case by (simp add: frame_refl)
next
  case (Cons x xs)
  from Cons.prems(1) obtain ev h1 H1 evs1 where
    st: "sync_step x (h, H) = Inr (ev, h1, H1)" and
    rest: "run_ops sync_step xs (h1, H1) = Inr (evs1, h', H')"
    by (auto split: sum.splits prod.splits)
  have x: "x \<noteq> Pop tg" and xs: "Pop tg \<notin> set xs" using Cons.prems(2) by auto
  have "map_of (tensor_tag_to_state h1) tg = Some v"
    using sync_step_slot[OF st x Cons.prems(3)] .
  with Cons.IH[OF rest xs] sync_step_frame[OF st] show ?case
    by (auto intro: frame_trans)
qed

text \<open>
  Claim C1.  Push a live tensor \<open>T\<close> on the synchronous handler, run any
  calls that do not pop the returned tag, then pop the tag.  The pop succeeds.
  If at the push \<^verbatim>\<open>current_group < num_offload_group\<close> and the predicate held,
  the popped tensor has the elements, the size and the device of \<open>T\<close> at the
  push; otherwise the popped value is the object \<open>T\<close> itself.
\<close>

theorem sync_round_trip:
  assumes push: "sync_tensor_push T (h, H) = Inr (tg, w1)"
      and live: "T < next_ref H"
      and run: "run_ops sync_step ops w1 = Inr (evs, w2)"
      and nopop: "Pop tg \<notin> set ops"
  shows "\<exists>R w3. sync_tensor_pop tg w2 = Inr (R, w3) \<and>
     (if current_group h < num_offload_group h \<and> tensor_need_offloading_checker h H (PObj T)
      then \<exists>r. R = PObj r
             \<and> payload (objs (snd w3) r) = payload (objs H T)
             \<and> shape (objs (snd w3) r) = shape (objs H T)
             \<and> device (objs (snd w3) r) = device (objs H T)
      else R = PObj T)"
proof -
  obtain h1 H1 where w1: "w1 = (h1, H1)" by (cases w1)
  obtain h2 H2 where w2: "w2 = (h2, H2)" by (cases w2)
  show ?thesis
  proof (cases "current_group h < num_offload_group h \<and> tensor_need_offloading_checker h H (PObj T)")
    case True
    from push True w1 obtain st where
      off: "offload (PObj T) H = Inr (st, H1)" and
      slot: "map_of (tensor_tag_to_state h1) tg = Some st"
      by (auto simp: sync_tensor_push_def Let_def update_conv' split: if_splits sum.splits)
    from offload_result[OF off live] obtain cb where
      cb: "st = PTuple (device (objs H T)) cb" "cb < next_ref H1"
          "payload (objs H1 cb) = payload (objs H T)" "shape (objs H1 cb) = shape (objs H T)"
      by blast
    from sync_run_keeps[OF run[unfolded w1 w2] nopop slot] have
      slot2: "map_of (tensor_tag_to_state h2) tg = Some st" and fr: "frame H1 H2" by auto
    from fr cb have cb2: "cb < next_ref H2" "objs H2 cb = objs H1 cb"
      by (auto simp: frame_def)
    from reload_none[OF cb2(1), of "device (objs H T)" None] obtain r H3 where
      rl: "reload (PTuple (device (objs H T)) cb) None PNone H2 = Inr (PObj r, H3)"
          "payload (objs H3 r) = payload (objs H2 cb)" "shape (objs H3 r) = shape (objs H2 cb)"
          "device (objs H3 r) = device (objs H T)"
      by blast
    have "sync_tensor_pop tg w2 =
            Inr (PObj r, h2\<lparr>tensor_tag_to_state := AList.delete tg (tensor_tag_to_state h2)\<rparr>, H3)"
      using slot2 rl(1) cb(1) by (simp add: sync_tensor_pop_def w2)
    with True rl cb cb2 show ?thesis by auto
  next
    case False
    from push False w1 have
      slot: "map_of (tensor_tag_to_state h1) tg = Some (PObj T)"
      by (auto simp: sync_tensor_push_def Let_def update_conv' split: if_splits sum.splits)
    from sync_run_keeps[OF run[unfolded w1 w2] nopop slot] have
      slot2: "map_of (tensor_tag_to_state h2) tg = Some (PObj T)" by auto
    then have "sync_tensor_pop tg w2 =
            Inr (PObj T, h2\<lparr>tensor_tag_to_state := AList.delete tg (tensor_tag_to_state h2)\<rparr>, H2)"
      by (simp add: sync_tensor_pop_def w2)
    with False show ?thesis by auto
  qed
qed

theorem sync_round_trip_witness:
  "\<exists>w1 evs w2 R w3.
      sync_tensor_push 1 (sync_init 1 tensor_need_offloading_checker_activations, example_store)
        = Inr ((0, 0), w1)
    \<and> run_ops sync_step [Push 0, CommitForward, Push 4, Pop (0, 1)] w1 = Inr (evs, w2)
    \<and> sync_tensor_pop (0, 0) w2 = Inr (PObj R, w3)
    \<and> payload (objs (snd w3) R) = [3, 4] \<and> device (objs (snd w3) R) = CUDA 0"
proof -
  define w0 where "w0 = (sync_init 1 tensor_need_offloading_checker_activations, example_store)"
  define ops where "ops = [Push 0, CommitForward, Push 4, Pop (0, 1)]"
  define w1 where "w1 = snd (projr (sync_tensor_push 1 w0))"
  define r where "r = projr (run_ops sync_step ops w1)"
  have push: "sync_tensor_push 1 (fst w0, snd w0) = Inr ((0, 0), w1)"
    unfolding w1_def w0_def by (simp add: ev)
  have live: "1 < next_ref (snd w0)" unfolding w0_def by (simp add: ev)
  have run: "run_ops sync_step ops w1 = Inr (fst r, snd r)"
    unfolding r_def w1_def w0_def ops_def by (simp add: ev)
  have nopop: "Pop (0, 0) \<notin> set ops" unfolding ops_def by simp
  have cond: "current_group (fst w0) < num_offload_group (fst w0)
     \<and> tensor_need_offloading_checker (fst w0) (snd w0) (PObj 1)"
    unfolding w0_def by (simp add: ev)
  have vals: "payload (objs (snd w0) 1) = [3, 4]" "device (objs (snd w0) 1) = CUDA 0"
    unfolding w0_def by (simp_all add: ev)
  from sync_round_trip[OF push live run nopop] cond vals obtain R w3 rr where
    *: "sync_tensor_pop (0, 0) (snd r) = Inr (R, w3)" "R = PObj rr"
    "payload (objs (snd w3) rr) = [3, 4]" "device (objs (snd w3) rr) = CUDA 0"
    by auto
  from * show ?thesis using push run unfolding w0_def ops_def
    by (intro exI[of _ w1] exI[of _ "fst r"] exI[of _ "snd r"] exI[of _ rr] exI[of _ w3]) auto
qed

section \<open>Pop under double buffering\<close>

lemma restore_or_skip_db:
  "restore_or_skip tg saved (h, H) = Inr (h', H') \<Longrightarrow> double_buffering h' = double_buffering h"
  by (auto simp: restore_or_skip_def split: if_splits option.splits sum.splits)

text \<open>
  Claim C9.  With double buffering on, whatever \<^verbatim>\<open>tensor_pop\<close> returns is an
  object on which it has set \<^verbatim>\<open>_do_not_clear = True\<close>: a restored quantized
  tensor, a plain tensor or a stray tensor alike.
\<close>

theorem pop_sets_do_not_clear:
  assumes "double_buffering h"
      and "async_tensor_pop tg (h, H) = Inr (v, h', H')"
  shows "\<exists>r. v = PObj r \<and> do_not_clear (objs H' r) = Some True"
  using assms
  by (auto simp: async_tensor_pop_def Let_def upd_obj_def
           dest!: restore_or_skip_db
           split: option.splits pyval.splits sum.splits prod.splits if_splits)

theorem pop_sets_do_not_clear_witness:
  "\<exists>w1 h' H'. async_tensor_push 2 (async_init 1 1 tensor_need_offloading_checker_activations True,
                   example_store) = Inr ((- 1, 0), w1)
     \<and> double_buffering (fst w1)
     \<and> async_tensor_pop (- 1, 0) w1 = Inr (PObj 2, h', H')
     \<and> do_not_clear (objs example_store 2) = None
     \<and> do_not_clear (objs H' 2) = Some True"
proof -
  define w0 where "w0 = (async_init 1 1 tensor_need_offloading_checker_activations True, example_store)"
  define w1 where "w1 = snd (projr (async_tensor_push 2 w0))"
  define w2 where "w2 = snd (projr (async_tensor_pop (- 1, 0) w1))"
  have push: "async_tensor_push 2 w0 = Inr ((- 1, 0), w1)"
    unfolding w1_def w0_def by (simp add: ev)
  have db: "double_buffering (fst w1)" unfolding w1_def w0_def by (simp add: ev)
  have pop: "async_tensor_pop (- 1, 0) (fst w1, snd w1) = Inr (PObj 2, fst w2, snd w2)"
    unfolding w2_def w1_def w0_def by (simp add: ev)
  from pop_sets_do_not_clear[OF db pop]
  have "do_not_clear (objs (snd w2) 2) = Some True" by simp
  moreover have "do_not_clear (objs example_store 2) = None" by (simp add: ev)
  ultimately show ?thesis using push db pop unfolding w0_def
    by (intro exI[of _ w1] exI[of _ "fst w2"] exI[of _ "snd w2"]) auto
qed


section \<open>Loops, configuration and counters of the asynchronous handler\<close>

lemma for_each_inv:
  assumes "for_each body xs w = Inr w'" and "P w"
    and "\<And>x v v'. x \<in> set xs \<Longrightarrow> P v \<Longrightarrow> body x v = Inr v' \<Longrightarrow> P v'"
  shows "P w'"
  using assms
proof (induction xs arbitrary: w)
  case Nil
  then show ?case by simp
next
  case (Cons x xs)
  from Cons.prems(1) obtain w1 where
    b: "body x w = Inr w1" and r: "for_each body xs w1 = Inr w'"
    by (auto split: sum.splits)
  have "P w1" using Cons.prems(3)[OF _ Cons.prems(2) b] by simp
  then show ?case
    by (rule Cons.IH[OF r]) (use Cons.prems(3) in auto)
qed

lemma for_each_append:
  "for_each body (xs @ ys) w =
     (case for_each body xs w of Inl e \<Rightarrow> Inl e | Inr w1 \<Rightarrow> for_each body ys w1)"
  by (induction xs arbitrary: w) (auto split: sum.splits)

lemma ctrl_upd [simp]:
  "ctrl (h\<lparr>tensor_tag_to_state := a\<rparr>) = ctrl h"
  "ctrl (h\<lparr>tensor_tag_to_buf := b\<rparr>) = ctrl h"
  "ctrl (h\<lparr>fp8_tensor_object_map := c\<rparr>) = ctrl h"
  "ctrl (h\<lparr>float8_transpose_cache_valid := d\<rparr>) = ctrl h"
  "ctrl (h\<lparr>dereferencing_list := e\<rparr>) = ctrl h"
  "ctrl (h\<lparr>reload_double_buffer := f\<rparr>) = ctrl h"
  "ctrl (h\<lparr>double_buffer_created := g\<rparr>) = ctrl h"
  by (simp_all add: ctrl_def)

lemma push_tensor_ctrl:
  "push_tensor q t tg x (h, H) = Inr (h', H') \<Longrightarrow> ctrl h' = ctrl h"
  by (auto simp: push_tensor_def Let_def split: if_splits sum.splits)

lemma push_loop_ctrl:
  assumes "for_each (push_tensor q t tg) ts (h, H) = Inr (h', H')"
  shows "ctrl h' = ctrl h"
  by (rule for_each_inv[OF assms, where P = "\<lambda>w. ctrl (fst w) = ctrl h", simplified]) (auto dest: push_tensor_ctrl)

lemma offload_tensor_ctrl:
  "offload_tensor q tg x (st, h, H) = Inr (st', h', H') \<Longrightarrow> ctrl h' = ctrl h"
  by (auto simp: offload_tensor_def split: if_splits sum.splits prod.splits)

lemma offload_loop_ctrl:
  assumes "for_each (offload_tensor q tg) ts (st, h, H) = Inr (st', h', H')"
  shows "ctrl h' = ctrl h"
  by (rule for_each_inv[OF assms, where P = "\<lambda>w. ctrl (fst (snd w)) = ctrl h", simplified]) (auto dest: offload_tensor_ctrl)

lemma bulk_offload_item_ctrl:
  "bulk_offload_item g item (h, H) = Inr (h', H') \<Longrightarrow> ctrl h' = ctrl h"
  by (cases item)
     (auto simp: bulk_offload_item_def split: if_splits sum.splits pyval.splits
           dest!: offload_loop_ctrl offload_tensor_ctrl)

lemma bulk_offload_group_ctrl:
  assumes "bulk_offload_group g (h, H) = Inr (h', H')"
  shows "ctrl h' = ctrl h"
  by (rule for_each_inv[OF assms[unfolded bulk_offload_group_def], where P = "\<lambda>w. ctrl (fst w) = ctrl h", simplified]) (auto dest: bulk_offload_item_ctrl)

lemma release_buf_ctrl:
  "release_buf g item (h, H) = Inr (h', H') \<Longrightarrow> ctrl h' = ctrl h"
  by (cases item) (auto split: if_splits)

lemma release_bufs_ctrl:
  assumes "release_bufs g (h, H) = Inr (h', H')"
  shows "ctrl h' = ctrl h"
  by (rule for_each_inv[OF assms[unfolded release_bufs_def], where P = "\<lambda>w. ctrl (fst w) = ctrl h", simplified]) (auto dest: release_buf_ctrl)

lemma restore_or_skip_ctrl:
  "restore_or_skip tg saved (h, H) = Inr (h', H') \<Longrightarrow> ctrl h' = ctrl h"
  by (auto simp: restore_or_skip_def split: if_splits option.splits sum.splits)

lemma finish_composite_ctrl:
  "finish_composite tg (h, H) = Inr (h', H') \<Longrightarrow> ctrl h' = ctrl h"
  by (auto simp: finish_composite_def split: if_splits option.splits sum.splits)

lemma bulk_reload_item_ctrl:
  "bulk_reload_item g dbi item (i, h, H) = Inr (i', h', H') \<Longrightarrow> ctrl h' = ctrl h"
  by (cases item)
     (auto simp: bulk_reload_item_def split: if_splits sum.splits pyval.splits prod.splits
           dest!: restore_or_skip_ctrl finish_composite_ctrl)

lemma bulk_reload_group_ctrl:
  assumes "bulk_reload_group g (h, H) = Inr (h', H')"
  shows "ctrl h' = ctrl h"
proof -
  from assms obtain i where
    f: "for_each (bulk_reload_item g (g mod 2)) (tensor_tag_to_state h) (0, h, H) = Inr (i, h', H')"
    by (auto simp: bulk_reload_group_def split: if_splits sum.splits)
  show ?thesis
    by (rule for_each_inv[OF f, where P = "\<lambda>w. ctrl (fst (snd w)) = ctrl h", simplified]) (auto dest: bulk_reload_item_ctrl)
qed

lemma ctrl_eqD:
  "ctrl h' = ctrl h \<Longrightarrow>
     num_offload_group h' = num_offload_group h \<and> num_layers h' = num_layers h
     \<and> layer_window_map h' = layer_window_map h \<and> double_buffering h' = double_buffering h
     \<and> current_group h' = current_group h
     \<and> tensor_count_current_group h' = tensor_count_current_group h
     \<and> torch_tensor_count h' = torch_tensor_count h
     \<and> offloaded_group_count h' = offloaded_group_count h"
  by (simp add: ctrl_def)

lemma first_group_block_ctrl:
  "first_group_block cur (h, H) = Inr (h', H') \<Longrightarrow> ctrl h' = ctrl h"
  by (auto simp: first_group_block_def split: if_splits sum.splits prod.splits
           dest!: bulk_offload_group_ctrl)

lemma second_buffer_block_ctrl:
  "second_buffer_block cur (h, H) = Inr (h', H') \<Longrightarrow> ctrl h' = ctrl h"
  by (auto simp: second_buffer_block_def split: if_splits sum.splits prod.splits)

lemma window_block_counts:
  assumes "window_block cur (h, H) = Inr (h', H')"
  shows "\<exists>v. map_of (layer_window_map h) (offloaded_group_count h) = Some v
       \<and> ctrl h' = ctrl (h\<lparr>offloaded_group_count :=
                           (if v = cur then offloaded_group_count h + 1
                            else offloaded_group_count h)\<rparr>)"
proof -
  from assms obtain v where v: "map_of (layer_window_map h) (offloaded_group_count h) = Some v"
    by (auto simp: window_block_def split: option.splits)
  show ?thesis
  proof (cases "v = cur")
    case False
    with assms v show ?thesis by (auto simp: window_block_def)
  next
    case True
    with assms v obtain h3 H3 h4 H4 where
      r: "release_bufs (offloaded_group_count h) (h, H) = Inr (h3, H3)" and
      b: "(if offloaded_group_count h3 < num_offload_group h3 - 1
           then bulk_offload_group (offloaded_group_count h3 + 1) (h3, H3)
           else Inr (h3, H3)) = Inr (h4, H4)" and
      e: "h' = h4\<lparr>offloaded_group_count := offloaded_group_count h4 + 1\<rparr>"
      by (auto simp: window_block_def split: sum.splits)
    have "ctrl h4 = ctrl h3"
      using b by (auto split: if_splits dest: bulk_offload_group_ctrl)
    with release_bufs_ctrl[OF r] have "ctrl h4 = ctrl h" by simp
    with e True v show ?thesis by (auto simp: ctrl_def)
  qed
qed

lemma commit_forward_counts:
  assumes "async_on_group_commit_forward (h, H) = Inr (h', H')"
  shows "num_offload_group h' = num_offload_group h \<and> num_layers h' = num_layers h
       \<and> layer_window_map h' = layer_window_map h
       \<and> double_buffering h' = double_buffering h
       \<and> torch_tensor_count h' = torch_tensor_count h
       \<and> tensor_count_current_group h' = 0
       \<and> current_group h' = current_group h + 1
       \<and> (\<exists>v. map_of (layer_window_map h) (offloaded_group_count h) = Some v
             \<and> offloaded_group_count h' =
                 (if v = current_group h then offloaded_group_count h + 1
                  else offloaded_group_count h))"
proof -
  from assms obtain h1 H1 h2 H2 h3 H3 where
    a: "first_group_block (current_group h) (h, H) = Inr (h1, H1)" and
    b: "window_block (current_group h) (h1, H1) = Inr (h2, H2)" and
    c: "second_buffer_block (current_group h) (h2, H2) = Inr (h3, H3)" and
    e: "h' = sync_on_group_commit_forward h3"
    by (auto simp: async_on_group_commit_forward_def synchronize_on_group_commit_forward_def
             split: sum.splits)
  from window_block_counts[OF b] obtain v where
    v: "map_of (layer_window_map h1) (offloaded_group_count h1) = Some v"
       "ctrl h2 = ctrl (h1\<lparr>offloaded_group_count :=
                           (if v = current_group h then offloaded_group_count h1 + 1
                            else offloaded_group_count h1)\<rparr>)"
    by blast
  note d1 = ctrl_eqD[OF first_group_block_ctrl[OF a]]
  note d3 = ctrl_eqD[OF second_buffer_block_ctrl[OF c]]
  from v(2) have d2: "num_offload_group h2 = num_offload_group h1" "num_layers h2 = num_layers h1"
     "layer_window_map h2 = layer_window_map h1" "double_buffering h2 = double_buffering h1"
     "current_group h2 = current_group h1" "torch_tensor_count h2 = torch_tensor_count h1"
     "offloaded_group_count h2 = (if v = current_group h then offloaded_group_count h1 + 1
                            else offloaded_group_count h1)"
    by (simp_all add: ctrl_def)
  show ?thesis
    using d1 d2 d3 v(1) e by (simp add: sync_on_group_commit_forward_def)
qed

lemma commit_backward_counts:
  assumes "async_on_group_commit_backward (h, H) = Inr (h', H')"
  shows "num_offload_group h' = num_offload_group h \<and> num_layers h' = num_layers h
       \<and> layer_window_map h' = layer_window_map h
       \<and> double_buffering h' = double_buffering h
       \<and> torch_tensor_count h' = torch_tensor_count h
       \<and> tensor_count_current_group h' = tensor_count_current_group h
       \<and> current_group h' = current_group h - 1 \<and> 0 \<le> current_group h'
       \<and> (\<exists>v. map_of (layer_window_map h) (offloaded_group_count h - 1) = Some v
             \<and> offloaded_group_count h' =
                 (if current_group h - 1 = 0 then 0
                  else if v = current_group h - 1 \<and> offloaded_group_count h > 1
                  then offloaded_group_count h - 1
                  else offloaded_group_count h))"
proof -
  let ?h1 = "h\<lparr>current_group := current_group h - 1\<rparr>"
  from assms have nn: "0 \<le> current_group h - 1"
    by (auto simp: async_on_group_commit_backward_def Let_def split: if_splits)
  from assms obtain v where v: "map_of (layer_window_map h) (offloaded_group_count h - 1) = Some v"
    by (auto simp: async_on_group_commit_backward_def Let_def split: if_splits option.splits)
  show ?thesis
  proof (cases "v = current_group h - 1")
    case False
    with assms v nn show ?thesis
      by (auto simp: async_on_group_commit_backward_def Let_def split: if_splits)
  next
    case True
    with assms v nn obtain h2 H2 where
      r: "bulk_reload_group (offloaded_group_count h - 1) (?h1, H) = Inr (h2, H2)" and
      e: "h' = (let h3 = h2\<lparr>offloaded_group_count :=
                   offloaded_group_count h2 - (if offloaded_group_count h2 > 1 then 1 else 0)\<rparr>
                in if current_group h3 = 0 then h3\<lparr>offloaded_group_count := 0\<rparr> else h3)"
      by (auto simp: async_on_group_commit_backward_def Let_def split: if_splits sum.splits)
    note d = ctrl_eqD[OF bulk_reload_group_ctrl[OF r]]
    show ?thesis using d e v True nn by (auto simp: Let_def)
  qed
qed

lemma window_lookup:
  "0 < G \<Longrightarrow> map_of (make_layer_window_map L G) i =
     (if 0 \<le> i \<and> i < G then Some (window L G i) else None)"
  by (simp add: layer_window_lookup window_def)

lemma window_mono:
  assumes "1 \<le> G" "G \<le> L" "i < j"
  shows "window L G i < window L G j"
proof -
  have "G div G \<le> L div G" using assms by (intro zdiv_mono1) auto
  then have q1: "1 \<le> L div G" using assms by simp
  have "(L div G) * (i + 1) < (L div G) * (j + 1)"
    using q1 assms(3) by (intro mult_strict_left_mono) auto
  moreover have "min (i + 1) (L mod G) \<le> min (j + 1) (L mod G)" using assms(3) by simp
  ultimately show ?thesis by (simp add: window_def)
qed

lemma window_last:
  assumes "1 \<le> G"
  shows "window L G (G - 1) = L - 1"
proof -
  have "L mod G < G" using assms by simp
  moreover have "(L div G) * G + L mod G = L" by simp
  ultimately show ?thesis by (simp add: window_def)
qed

lemma run_ops_append:
  "run_ops step (xs @ ys) w =
     (case run_ops step xs w of
        Inl e \<Rightarrow> Inl e
      | Inr (e1, w1) \<Rightarrow>
          (case run_ops step ys w1 of Inl e \<Rightarrow> Inl e | Inr (e2, w2) \<Rightarrow> Inr (e1 @ e2, w2)))"
  by (induction xs arbitrary: w) (auto split: sum.splits prod.splits)

lemma async_pop_ctrl:
  "async_tensor_pop tg (h, H) = Inr (v, h', H') \<Longrightarrow> ctrl h' = ctrl h"
  by (auto simp: async_tensor_pop_def Let_def
           split: option.splits pyval.splits sum.splits prod.splits if_splits
           dest!: restore_or_skip_ctrl)

lemma async_push_counts:
  assumes "async_tensor_push t (h, H) = Inr (tg, h', H')"
  shows "num_offload_group h' = num_offload_group h \<and> num_layers h' = num_layers h
       \<and> layer_window_map h' = layer_window_map h \<and> double_buffering h' = double_buffering h
       \<and> current_group h' = current_group h
       \<and> offloaded_group_count h' = offloaded_group_count h
       \<and> (if isinstance_stray (cls (objs H t))
           then tg = (- 1, torch_tensor_count h)
                \<and> torch_tensor_count h' = torch_tensor_count h + 1
                \<and> tensor_count_current_group h' = tensor_count_current_group h
           else tg = (current_group h, tensor_count_current_group h)
                \<and> map_of (tensor_tag_to_state h) tg = None
                \<and> torch_tensor_count h' = torch_tensor_count h
                \<and> tensor_count_current_group h' = tensor_count_current_group h + 1)"
proof (cases "isinstance_stray (cls (objs H t))")
  case True
  with assms show ?thesis by (auto simp: async_tensor_push_def Let_def)
next
  case False
  let ?h1 = "h\<lparr>tensor_count_current_group := tensor_count_current_group h + 1\<rparr>"
  from assms False have tg: "tg = (current_group h, tensor_count_current_group h)"
    and fresh: "map_of (tensor_tag_to_state h) tg = None"
    by (auto simp: async_tensor_push_def Let_def split: if_splits sum.splits prod.splits)
  have "ctrl h' = ctrl ?h1"
    using assms False
    by (auto simp: async_tensor_push_def Let_def prepare_for_saving_def
             split: if_splits sum.splits prod.splits
             dest!: push_loop_ctrl push_tensor_ctrl)
  then show ?thesis using tg fresh False by (simp add: ctrl_def)
qed

lemma fwd_inv_init:
  assumes "1 \<le> G" "G \<le> L"
  shows "fwd_inv L G (async_init G L checker db)"
proof -
  have "G div G \<le> L div G" using assms by (intro zdiv_mono1) auto
  then have "1 \<le> L div G" using assms by simp
  moreover have "0 \<le> L mod G" using assms by simp
  ultimately have "0 \<le> window L G 0" by (simp add: window_def)
  then show ?thesis using assms by (simp add: fwd_inv_def async_init_def)
qed

lemma fwd_step:
  assumes G: "1 \<le> G" "G \<le> L" and inv: "fwd_inv L G h"
    and x: "x = CommitForward \<or> (\<exists>t. x = Push t)"
    and st: "async_step x (h, H) = Inr (ev, h', H')"
  shows "fwd_inv L G h'
       \<and> current_group h' = current_group h + (if x = CommitForward then 1 else 0)
       \<and> offloaded_group_count h \<le> offloaded_group_count h'"
proof (cases "x = CommitForward")
  case False
  with x obtain t where t: "x = Push t" by blast
  with st obtain tg where "async_tensor_push t (h, H) = Inr (tg, h', H')"
    by (auto split: sum.splits)
  from async_push_counts[OF this] inv False show ?thesis by (simp add: fwd_inv_def)
next
  case True
  with st have c: "async_on_group_commit_forward (h, H) = Inr (h', H')"
    by (auto split: sum.splits)
  note cc = commit_forward_counts[OF c]
  from cc obtain v where
    v: "map_of (layer_window_map h) (offloaded_group_count h) = Some v" and
    o: "offloaded_group_count h' =
          (if v = current_group h then offloaded_group_count h + 1 else offloaded_group_count h)"
    by blast
  from inv have lw: "layer_window_map h = make_layer_window_map L G" by (simp add: fwd_inv_def)
  from v lw G have lt: "offloaded_group_count h < G" and ge: "0 \<le> offloaded_group_count h"
    and vw: "v = window L G (offloaded_group_count h)"
    by (auto simp: window_lookup split: if_splits)
  have m: "window L G (offloaded_group_count h) < window L G (offloaded_group_count h + 1)"
    using window_mono[OF G] by simp
  from inv lt have le: "current_group h \<le> window L G (offloaded_group_count h)"
    by (simp add: fwd_inv_def)
  show ?thesis
    using inv cc o vw lt ge m le True by (auto simp: fwd_inv_def)
qed

lemma fwd_phase:
  assumes G: "1 \<le> G" "G \<le> L" and inv: "fwd_inv L G h"
    and ops: "\<forall>x\<in>set ops. x = CommitForward \<or> (\<exists>t. x = Push t)"
    and run: "run_ops async_step ops (h, H) = Inr (evs, h', H')"
  shows "fwd_inv L G h'
       \<and> current_group h' = current_group h + int (count_list ops CommitForward)
       \<and> offloaded_group_count h \<le> offloaded_group_count h'"
  using inv ops run
proof (induction ops arbitrary: h H evs)
  case Nil
  then show ?case by simp
next
  case (Cons x xs)
  from Cons.prems(3) obtain ev h1 H1 evs1 where
    st: "async_step x (h, H) = Inr (ev, h1, H1)" and
    rest: "run_ops async_step xs (h1, H1) = Inr (evs1, h', H')"
    by (auto split: sum.splits prod.splits)
  have x: "x = CommitForward \<or> (\<exists>t. x = Push t)" using Cons.prems(2) by simp
  note s1 = fwd_step[OF G Cons.prems(1) x st]
  have "\<forall>x\<in>set xs. x = CommitForward \<or> (\<exists>t. x = Push t)" using Cons.prems(2) by simp
  from Cons.IH[OF _ this rest] s1 show ?case by auto
qed

lemma fwd_inv_full:
  assumes "1 \<le> G" "G \<le> L" "fwd_inv L G h" "current_group h = L"
  shows "offloaded_group_count h = G"
proof (rule ccontr)
  assume "offloaded_group_count h \<noteq> G"
  with assms(3) have lt: "offloaded_group_count h < G" by (simp add: fwd_inv_def)
  with assms(3,4) have "L \<le> window L G (offloaded_group_count h)" by (simp add: fwd_inv_def)
  moreover have "window L G (offloaded_group_count h) \<le> window L G (G - 1)"
    using window_mono[OF assms(1,2), of "offloaded_group_count h" "G - 1"] lt
    by (cases "offloaded_group_count h = G - 1") auto
  ultimately show False using window_last[OF assms(1), of L] by simp
qed

lemma bwd_step:
  assumes inv: "bwd_inv h"
    and x: "x = CommitBackward \<or> (\<exists>t. x = Pop t)"
    and st: "async_step x (h, H) = Inr (ev, h', H')"
  shows "bwd_inv h'
       \<and> current_group h' = current_group h - (if x = CommitBackward then 1 else 0)
       \<and> offloaded_group_count h' \<le> offloaded_group_count h"
proof (cases "x = CommitBackward")
  case False
  with x obtain t where t: "x = Pop t" by blast
  with st obtain v where "async_tensor_pop t (h, H) = Inr (v, h', H')"
    by (auto split: sum.splits)
  from ctrl_eqD[OF async_pop_ctrl[OF this]] inv False show ?thesis by (simp add: bwd_inv_def)
next
  case True
  with st have c: "async_on_group_commit_backward (h, H) = Inr (h', H')"
    by (auto split: sum.splits)
  from commit_backward_counts[OF c] inv True show ?thesis
    by (auto simp: bwd_inv_def split: if_splits)
qed

lemma bwd_phase:
  assumes inv: "bwd_inv h"
    and ops: "\<forall>x\<in>set ops. x = CommitBackward \<or> (\<exists>t. x = Pop t)"
    and run: "run_ops async_step ops (h, H) = Inr (evs, h', H')"
  shows "bwd_inv h'
       \<and> current_group h' = current_group h - int (count_list ops CommitBackward)
       \<and> offloaded_group_count h' \<le> offloaded_group_count h"
  using inv ops run
proof (induction ops arbitrary: h H evs)
  case Nil
  then show ?case by simp
next
  case (Cons x xs)
  from Cons.prems(3) obtain ev h1 H1 evs1 where
    st: "async_step x (h, H) = Inr (ev, h1, H1)" and
    rest: "run_ops async_step xs (h1, H1) = Inr (evs1, h', H')"
    by (auto split: sum.splits prod.splits)
  have x: "x = CommitBackward \<or> (\<exists>t. x = Pop t)" using Cons.prems(2) by simp
  note s1 = bwd_step[OF Cons.prems(1) x st]
  have "\<forall>x\<in>set xs. x = CommitBackward \<or> (\<exists>t. x = Pop t)" using Cons.prems(2) by simp
  from Cons.IH[OF _ this rest] s1 show ?case by auto
qed

lemma commit_forward_no_tensors:
  assumes "no_tensors h" "map_of (layer_window_map h) (offloaded_group_count h) = Some v"
  shows "\<exists>h'. async_on_group_commit_forward (h, H) = Inr (h', H) \<and> no_tensors h'"
  using assms
  by (simp add: no_tensors_def async_on_group_commit_forward_def
        synchronize_on_group_commit_forward_def first_group_block_def window_block_def
        second_buffer_block_def append_buffers_def buf_items_def bulk_offload_group_def
        release_bufs_def sync_on_group_commit_forward_def)

lemma commit_backward_no_tensors:
  assumes "no_tensors h" "map_of (layer_window_map h) (offloaded_group_count h - 1) = Some v"
    "1 \<le> current_group h" "offloaded_group_count h \<le> num_offload_group h"
  shows "\<exists>h'. async_on_group_commit_backward (h, H) = Inr (h', H) \<and> no_tensors h'"
  using assms
  by (simp add: no_tensors_def async_on_group_commit_backward_def Let_def bulk_reload_group_def)

lemma forward_commits_run:
  assumes G: "1 \<le> G" "G \<le> L"
  shows "fwd_inv L G h \<Longrightarrow> no_tensors h \<Longrightarrow> current_group h + int n \<le> L \<Longrightarrow>
     \<exists>evs h'. run_ops async_step (replicate n CommitForward) (h, H) = Inr (evs, h', H)
        \<and> fwd_inv L G h' \<and> no_tensors h' \<and> current_group h' = current_group h + int n"
proof (induction n arbitrary: h)
  case 0
  then show ?case by simp
next
  case (Suc n)
  have lt: "offloaded_group_count h < G"
  proof (rule ccontr)
    assume "\<not> offloaded_group_count h < G"
    with Suc.prems(1) have "offloaded_group_count h = G" by (simp add: fwd_inv_def)
    with Suc.prems(1) G have "window L G (G - 1) < current_group h" by (simp add: fwd_inv_def)
    with window_last[OF G(1), of L] Suc.prems(3) show False by simp
  qed
  with Suc.prems(1) G have
    "map_of (layer_window_map h) (offloaded_group_count h) = Some (window L G (offloaded_group_count h))"
    by (simp add: fwd_inv_def window_lookup)
  from commit_forward_no_tensors[OF Suc.prems(2) this, of H] obtain h1 where
    c: "async_on_group_commit_forward (h, H) = Inr (h1, H)" and nt: "no_tensors h1" by blast
  then have st: "async_step CommitForward (h, H) = Inr (Committed, h1, H)" by simp
  from fwd_step[OF G Suc.prems(1) _ st] have
    i1: "fwd_inv L G h1" and c1: "current_group h1 = current_group h + 1" by simp_all
  from Suc.IH[OF i1 nt] c1 Suc.prems(3) obtain evs h' where
    "run_ops async_step (replicate n CommitForward) (h1, H) = Inr (evs, h', H)"
    "fwd_inv L G h'" "no_tensors h'" "current_group h' = current_group h1 + int n"
    by auto
  with st c1 show ?case by auto
qed

lemma backward_commits_run:
  assumes G: "1 \<le> G" "G \<le> L"
  shows "bwd_run_inv L G h \<Longrightarrow> no_tensors h \<Longrightarrow> current_group h = int n \<Longrightarrow>
     \<exists>evs h'. run_ops async_step (replicate n CommitBackward) (h, H) = Inr (evs, h', H)"
proof (induction n arbitrary: h)
  case 0
  then show ?case by simp
next
  case (Suc n)
  then have o: "1 \<le> offloaded_group_count h" "offloaded_group_count h \<le> G"
    "1 \<le> current_group h"
    by (simp_all add: bwd_run_inv_def)
  with Suc.prems(1) G have
    "map_of (layer_window_map h) (offloaded_group_count h - 1)
       = Some (window L G (offloaded_group_count h - 1))"
    by (simp add: bwd_run_inv_def window_lookup)
  from commit_backward_no_tensors[OF Suc.prems(2) this o(3), of H] o Suc.prems(1) obtain h1 where
    c: "async_on_group_commit_backward (h, H) = Inr (h1, H)" and nt: "no_tensors h1"
    by (auto simp: bwd_run_inv_def)
  then have st: "async_step CommitBackward (h, H) = Inr (Committed, h1, H)" by simp
  from commit_backward_counts[OF c] Suc.prems(1,3) o have
    "bwd_run_inv L G h1" "current_group h1 = int n"
    by (auto simp: bwd_run_inv_def split: if_splits)
  from Suc.IH[OF this(1) nt this(2)] obtain evs h' where
    "run_ops async_step (replicate n CommitBackward) (h1, H) = Inr (evs, h', H)" by blast
  with st show ?case by auto
qed

lemma not_isl_Inr: "\<not> isl x \<Longrightarrow> x = Inr (fst (projr x), snd (projr x))"
  by (cases x) auto

section \<open>The group count over a session\<close>

text \<open>
  Claim C5.  Take \<open>1 \<le> G \<le> L\<close> and a session on a new asynchronous handler:
  a forward pass of pushes and \<open>L\<close> forward commits, then a backward pass of
  pops and \<open>L\<close> backward commits, none of which raises.  After the forward
  pass \<^verbatim>\<open>offloaded_group_count\<close> is \<open>G\<close> and \<^verbatim>\<open>current_group\<close> is \<open>L\<close>; after the
  backward pass both are \<open>0\<close>; no call of the forward pass decreases
  \<^verbatim>\<open>offloaded_group_count\<close> and no call of the backward pass increases it.  The
  session of the \<open>2L\<close> commits alone does run to its end.
\<close>

theorem group_count_session:
  assumes G: "1 \<le> G" "G \<le> L"
    and fwd: "\<forall>x\<in>set fwd. x = CommitForward \<or> (\<exists>t. x = Push t)"
    and nf: "count_list fwd CommitForward = nat L"
    and bwd: "\<forall>x\<in>set bwd. x = CommitBackward \<or> (\<exists>t. x = Pop t)"
    and nb: "count_list bwd CommitBackward = nat L"
    and rf: "run_ops async_step fwd (async_init G L checker db, H) = Inr (e1, w_fwd)"
    and rb: "run_ops async_step bwd w_fwd = Inr (e2, w_bwd)"
  shows "offloaded_group_count (fst w_fwd) = G \<and> current_group (fst w_fwd) = L
       \<and> offloaded_group_count (fst w_bwd) = 0 \<and> current_group (fst w_bwd) = 0
       \<and> (\<forall>p x s e w e' w'.
             fwd = p @ x # s \<and> run_ops async_step p (async_init G L checker db, H) = Inr (e, w)
             \<and> async_step x w = Inr (e', w')
             \<longrightarrow> offloaded_group_count (fst w) \<le> offloaded_group_count (fst w'))
       \<and> (\<forall>p x s e w e' w'.
             bwd = p @ x # s \<and> run_ops async_step p w_fwd = Inr (e, w)
             \<and> async_step x w = Inr (e', w')
             \<longrightarrow> offloaded_group_count (fst w') \<le> offloaded_group_count (fst w))
       \<and> (\<exists>e w. run_ops async_step
                    (replicate (nat L) CommitForward @ replicate (nat L) CommitBackward)
                    (async_init G L checker db, H) = Inr (e, w))"
proof -
  let ?h0 = "async_init G L checker db"
  have L0: "0 \<le> L" using G by simp
  have i0: "fwd_inv L G ?h0" by (rule fwd_inv_init[OF G])
  have c0: "current_group ?h0 = 0" by (simp add: async_init_def)
  obtain hf Hf where wf_eq: "w_fwd = (hf, Hf)" by (cases w_fwd)
  obtain hb Hb where wb_eq: "w_bwd = (hb, Hb)" by (cases w_bwd)
  from fwd_phase[OF G i0 fwd rf[unfolded wf_eq]] nf c0 L0 have
    f: "fwd_inv L G hf" "current_group hf = L" by simp_all
  have of: "offloaded_group_count hf = G" by (rule fwd_inv_full[OF G f])
  have bi: "bwd_inv hf" using of f(2) G by (simp add: bwd_inv_def)
  from bwd_phase[OF bi bwd rb[unfolded wf_eq wb_eq]] nb f(2) L0 have
    b: "bwd_inv hb" "current_group hb = 0" by simp_all
  then have ob: "offloaded_group_count hb = 0" by (simp add: bwd_inv_def)
  have fmono: "offloaded_group_count (fst w) \<le> offloaded_group_count (fst w')"
    if "fwd = p @ x # s" "run_ops async_step p (?h0, H) = Inr (e, w)"
       "async_step x w = Inr (e', w')" for p x s e w e' w'
  proof -
    obtain h1 H1 where w: "w = (h1, H1)" by (cases w)
    obtain h2 H2 where w': "w' = (h2, H2)" by (cases w')
    have p: "\<forall>x\<in>set p. x = CommitForward \<or> (\<exists>t. x = Push t)" using fwd that(1) by simp
    have x: "x = CommitForward \<or> (\<exists>t. x = Push t)" using fwd that(1) by simp
    from fwd_phase[OF G i0 p that(2)[unfolded w]] have "fwd_inv L G h1" by simp
    from fwd_step[OF G this x that(3)[unfolded w w']] show ?thesis by (simp add: w w')
  qed
  have bmono: "offloaded_group_count (fst w') \<le> offloaded_group_count (fst w)"
    if "bwd = p @ x # s" "run_ops async_step p w_fwd = Inr (e, w)"
       "async_step x w = Inr (e', w')" for p x s e w e' w'
  proof -
    obtain h1 H1 where w: "w = (h1, H1)" by (cases w)
    obtain h2 H2 where w': "w' = (h2, H2)" by (cases w')
    have p: "\<forall>x\<in>set p. x = CommitBackward \<or> (\<exists>t. x = Pop t)" using bwd that(1) by simp
    have x: "x = CommitBackward \<or> (\<exists>t. x = Pop t)" using bwd that(1) by simp
    from bwd_phase[OF bi p that(2)[unfolded w wf_eq]] have "bwd_inv h1" by simp
    from bwd_step[OF this x that(3)[unfolded w w']] show ?thesis by (simp add: w w')
  qed
  have total: "\<exists>e w. run_ops async_step
                    (replicate (nat L) CommitForward @ replicate (nat L) CommitBackward)
                    (?h0, H) = Inr (e, w)"
  proof -
    have nt0: "no_tensors ?h0" by (simp add: no_tensors_def async_init_def)
    from forward_commits_run[OF G i0 nt0, of "nat L" H] c0 L0 obtain ev1 h1 where
      r1: "run_ops async_step (replicate (nat L) CommitForward) (?h0, H) = Inr (ev1, h1, H)"
      and i1: "fwd_inv L G h1" and nt1: "no_tensors h1" and c1: "current_group h1 = L"
      by auto
    have o1: "offloaded_group_count h1 = G" by (rule fwd_inv_full[OF G i1 c1])
    have "bwd_run_inv L G h1" using i1 o1 G by (simp add: bwd_run_inv_def fwd_inv_def)
    from backward_commits_run[OF G this nt1, of "nat L" H] c1 L0 obtain ev2 h2 where
      "run_ops async_step (replicate (nat L) CommitBackward) (h1, H) = Inr (ev2, h2, H)"
      by auto
    with r1 show ?thesis by (simp add: run_ops_append)
  qed
  show ?thesis
    using of f(2) ob b(2) fmono bmono total unfolding wf_eq wb_eq fst_conv
    by blast
qed

theorem group_count_session_witness:
  "\<exists>e1 w_fwd e2 w_bwd.
     run_ops async_step [Push 0, CommitForward, Push 1, CommitForward]
       (async_init 1 2 tensor_need_offloading_checker_activations False, example_store)
       = Inr (e1, w_fwd)
   \<and> run_ops async_step [CommitBackward, Pop (1, 0), CommitBackward, Pop (0, 0)] w_fwd
       = Inr (e2, w_bwd)
   \<and> offloaded_group_count (fst w_fwd) = 1 \<and> current_group (fst w_fwd) = 2
   \<and> offloaded_group_count (fst w_bwd) = 0 \<and> current_group (fst w_bwd) = 0"
proof -
  define fwd where "fwd = [Push 0, CommitForward, Push 1, CommitForward]"
  define bwd where "bwd = [CommitBackward, Pop (1, 0), CommitBackward, Pop (0, 0)]"
  define r1 where "r1 = projr (run_ops async_step fwd
       (async_init 1 2 tensor_need_offloading_checker_activations False, example_store))"
  define r2 where "r2 = projr (run_ops async_step bwd (snd r1))"
  have G: "(1::int) \<le> 1" "(1::int) \<le> 2" by simp_all
  have f: "\<forall>x\<in>set fwd. x = CommitForward \<or> (\<exists>t. x = Push t)" by (simp add: fwd_def)
  have nf: "count_list fwd CommitForward = nat 2" by (simp add: fwd_def)
  have b: "\<forall>x\<in>set bwd. x = CommitBackward \<or> (\<exists>t. x = Pop t)" by (simp add: bwd_def)
  have nb: "count_list bwd CommitBackward = nat 2" by (simp add: bwd_def)
  have rf: "run_ops async_step fwd
              (async_init 1 2 tensor_need_offloading_checker_activations False, example_store)
            = Inr (fst r1, snd r1)"
    unfolding r1_def fwd_def by (rule not_isl_Inr) code_simp
  have rb: "run_ops async_step bwd (snd r1) = Inr (fst r2, snd r2)"
    unfolding r2_def r1_def fwd_def bwd_def by (rule not_isl_Inr) code_simp
  note th = group_count_session[OF G f nf b nb rf rb]
  have a: "offloaded_group_count (fst (snd r1)) = 1" using th by (rule conjunct1)
  have c: "current_group (fst (snd r1)) = 2" using th by (elim conjE)
  have d: "offloaded_group_count (fst (snd r2)) = 0" using th by (elim conjE)
  have e: "current_group (fst (snd r2)) = 0" using th by (elim conjE)
  show ?thesis
    using rf[unfolded fwd_def] rb[unfolded bwd_def] a c d e
    by (intro exI[of _ "fst r1"] exI[of _ "snd r1"] exI[of _ "fst r2"] exI[of _ "snd r2"] conjI)
qed

section \<open>Tags\<close>

lemma update_keys_in: "has_key k (map fst d) \<Longrightarrow> map fst (AList.update k v d) = map fst d"
  by (simp add: update_keys has_key_def)

lemma update_has_key [simp]: "has_key k (map fst (AList.update k v d))"
  by (simp add: update_keys has_key_def)

lemma map_of_Some_key: "map_of d k = Some v \<Longrightarrow> has_key k (map fst d)"
  unfolding has_key_def by (auto dest: map_of_SomeD intro: rev_image_eqI)

lemma mem_has_key: "x \<in> set d \<Longrightarrow> has_key (fst x) (map fst d)"
  by (simp add: has_key_def)

lemma map_of_None_key: "map_of d k = None \<longleftrightarrow> \<not> has_key k (map fst d)"
  by (simp add: has_key_def map_of_eq_None_iff)

lemma dict_append_keys:
  "dict_append d k v = Inr d' \<Longrightarrow> map fst d' = map fst d \<and> has_key k (map fst d)"
  by (auto simp: dict_append_def update_keys_in map_of_Some_key split: option.splits pyval.splits)

lemma push_tensor_keys:
  "push_tensor q t tg x (h, H) = Inr (h', H') \<Longrightarrow> has_key tg (keys h) \<Longrightarrow> keys h' = keys h"
  by (auto simp: push_tensor_def Let_def update_keys_in split: if_splits sum.splits
           dest!: dict_append_keys)

lemma aworld_loop_inv:
  assumes run: "for_each body xs (h, H) = Inr (h', H')" and init: "P h"
    and step: "\<And>x a A a' A'. x \<in> set xs \<Longrightarrow> P a \<Longrightarrow> body x (a, A) = Inr (a', A') \<Longrightarrow> P a'"
  shows "P h'"
proof -
  have "P (fst (h', H'))"
  proof (rule for_each_inv[OF run, where P = "\<lambda>w. P (fst w)"])
    show "P (fst (h, H))" using init by simp
  next
    fix x v v'
    assume x: "x \<in> set xs" and v: "P (fst v)" and b: "body x v = Inr v'"
    obtain a A where v_eq: "v = (a, A)" by (cases v)
    obtain a' A' where v'_eq: "v' = (a', A')" by (cases v')
    from step[OF x _ b[unfolded v_eq v'_eq]] v v_eq v'_eq show "P (fst v')" by simp
  qed
  then show ?thesis by simp
qed

lemma aworld_loop_inv3:
  assumes run: "for_each body xs (s, h, H) = Inr (s', h', H')" and init: "P h"
    and step: "\<And>x s a A s' a' A'. x \<in> set xs \<Longrightarrow> P a \<Longrightarrow> body x (s, a, A) = Inr (s', a', A')
                 \<Longrightarrow> P a'"
  shows "P h'"
proof -
  have "P (fst (snd (s', h', H')))"
  proof (rule for_each_inv[OF run, where P = "\<lambda>w. P (fst (snd w))"])
    show "P (fst (snd (s, h, H)))" using init by simp
  next
    fix x v v'
    assume x: "x \<in> set xs" and v: "P (fst (snd v))" and b: "body x v = Inr v'"
    obtain t a A where v_eq: "v = (t, a, A)" by (cases v)
    obtain t' a' A' where v'_eq: "v' = (t', a', A')" by (cases v')
    from step[OF x _ b[unfolded v_eq v'_eq]] v v_eq v'_eq show "P (fst (snd v'))" by simp
  qed
  then show ?thesis by simp
qed

lemma push_loop_keys:
  assumes "for_each (push_tensor q t tg) ts (h, H) = Inr (h', H')" "has_key tg (keys h)"
  shows "keys h' = keys h"
  by (rule aworld_loop_inv[OF assms(1), where P = "\<lambda>a. keys a = keys h"])
     (use assms(2) in \<open>auto dest: push_tensor_keys\<close>)

lemma offload_tensor_keys:
  "offload_tensor q tg x (st, h, H) = Inr (st', h', H') \<Longrightarrow> has_key tg (keys h)
     \<Longrightarrow> keys h' = keys h"
  by (auto simp: offload_tensor_def update_keys_in split: if_splits sum.splits prod.splits
           dest!: dict_append_keys)

lemma offload_loop_keys:
  assumes "for_each (offload_tensor q tg) ts (st, h, H) = Inr (st', h', H')" "has_key tg (keys h)"
  shows "keys h' = keys h"
  by (rule aworld_loop_inv3[OF assms(1), where P = "\<lambda>a. keys a = keys h"])
     (use assms(2) in \<open>auto dest: offload_tensor_keys\<close>)

lemma bulk_offload_item_keys:
  assumes "bulk_offload_item g item (h, H) = Inr (h', H')" "has_key (fst item) (keys h)"
  shows "keys h' = keys h"
proof -
  obtain tg st where item: "item = (tg, st)" by (cases item)
  have k: "has_key tg (keys h)" using assms(2) item by simp
  show ?thesis
  proof (cases "fst tg = g")
    case False
    with assms(1) show ?thesis by (simp add: bulk_offload_item_def item)
  next
    case True
    show ?thesis
    proof (cases st)
      case (PList xs)
      let ?h = "h\<lparr>tensor_tag_to_state := AList.update tg (PList []) (tensor_tag_to_state h)\<rparr>"
      from assms(1) True PList obtain st' where
        "for_each (offload_tensor True tg) xs (st, ?h, H) = Inr (st', h', H')"
        by (auto simp: bulk_offload_item_def item split: sum.splits)
      from offload_loop_keys[OF this] k show ?thesis by (simp add: update_keys_in)
    next
      case (PTuple d c)
      with assms(1) True show ?thesis by (simp add: bulk_offload_item_def item)
    next
      case PNone
      with assms(1) True obtain st' where
        "offload_tensor False tg st (st, h, H) = Inr (st', h', H')"
        by (auto simp: bulk_offload_item_def item split: sum.splits)
      from offload_tensor_keys[OF this] k show ?thesis by auto
    next
      case (PObj r)
      with assms(1) True obtain st' where
        "offload_tensor False tg st (st, h, H) = Inr (st', h', H')"
        by (auto simp: bulk_offload_item_def item split: sum.splits)
      from offload_tensor_keys[OF this] k show ?thesis by auto
    qed
  qed
qed

lemma bulk_offload_group_keys:
  assumes "bulk_offload_group g (h, H) = Inr (h', H')"
  shows "keys h' = keys h"
proof (rule aworld_loop_inv[OF assms[unfolded bulk_offload_group_def fst_conv],
        where P = "\<lambda>a. keys a = keys h"])
  fix x a A a' A'
  assume "x \<in> set (tensor_tag_to_state h)" "keys a = keys h"
    "bulk_offload_item g x (a, A) = Inr (a', A')"
  then show "keys a' = keys h"
    using bulk_offload_item_keys[of g x a A a' A'] mem_has_key[of x "tensor_tag_to_state h"]
    by simp
qed simp

lemma release_bufs_slots:
  assumes "release_bufs g (h, H) = Inr (h', H')"
  shows "tensor_tag_to_state h' = tensor_tag_to_state h"
  by (rule aworld_loop_inv[OF assms[unfolded release_bufs_def fst_conv],
        where P = "\<lambda>a. tensor_tag_to_state a = tensor_tag_to_state h"])
     (auto split: if_splits)

lemma first_group_block_keys:
  "first_group_block cur (h, H) = Inr (h', H') \<Longrightarrow> keys h' = keys h"
  by (auto simp: first_group_block_def split: if_splits sum.splits prod.splits
           dest!: bulk_offload_group_keys)

lemma window_block_keys:
  "window_block cur (h, H) = Inr (h', H') \<Longrightarrow> keys h' = keys h"
  by (auto simp: window_block_def split: if_splits sum.splits prod.splits option.splits
           dest!: bulk_offload_group_keys release_bufs_slots)

lemma second_buffer_block_keys:
  "second_buffer_block cur (h, H) = Inr (h', H') \<Longrightarrow> keys h' = keys h"
  by (auto simp: second_buffer_block_def split: if_splits sum.splits prod.splits)

lemma commit_forward_keys:
  "async_on_group_commit_forward (h, H) = Inr (h', H') \<Longrightarrow> keys h' = keys h"
  by (auto simp: async_on_group_commit_forward_def synchronize_on_group_commit_forward_def
                 sync_on_group_commit_forward_def
           split: sum.splits
           dest!: first_group_block_keys window_block_keys second_buffer_block_keys)

lemma restore_or_skip_slots:
  "restore_or_skip tg saved (h, H) = Inr (h', H') \<Longrightarrow>
     tensor_tag_to_state h' = tensor_tag_to_state h"
  by (auto simp: restore_or_skip_def split: if_splits option.splits sum.splits)

lemma finish_composite_keys:
  "finish_composite tg (h, H) = Inr (h', H') \<Longrightarrow> has_key tg (keys h) \<Longrightarrow> keys h' = keys h"
  by (auto simp: finish_composite_def update_keys_in split: if_splits option.splits sum.splits)

lemma bulk_reload_item_keys:
  assumes "bulk_reload_item g dbi item (i, h, H) = Inr (i', h', H')" "has_key (fst item) (keys h)"
  shows "keys h' = keys h"
proof -
  obtain tg st where item: "item = (tg, st)" by (cases item)
  have k: "has_key tg (keys h)" using assms(2) item by simp
  show ?thesis
    using assms(1) k unfolding item
    by (auto simp: bulk_reload_item_def update_keys_in
             split: if_splits sum.splits pyval.splits prod.splits
             dest!: restore_or_skip_slots finish_composite_keys)
qed

lemma bulk_reload_group_keys:
  assumes "bulk_reload_group g (h, H) = Inr (h', H')"
  shows "keys h' = keys h"
proof -
  from assms obtain i where
    run: "for_each (bulk_reload_item g (g mod 2)) (tensor_tag_to_state h) (0, h, H) = Inr (i, h', H')"
    by (auto simp: bulk_reload_group_def split: if_splits sum.splits)
  show ?thesis
  proof (rule aworld_loop_inv3[OF run, where P = "\<lambda>a. keys a = keys h"])
    fix x s a A s' a' A'
    assume "x \<in> set (tensor_tag_to_state h)" "keys a = keys h"
      "bulk_reload_item g (g mod 2) x (s, a, A) = Inr (s', a', A')"
    then show "keys a' = keys h"
      using bulk_reload_item_keys[of g "g mod 2" x s a A s' a' A']
        mem_has_key[of x "tensor_tag_to_state h"]
      by simp
  qed simp
qed

lemma commit_backward_keys:
  "async_on_group_commit_backward (h, H) = Inr (h', H') \<Longrightarrow> keys h' = keys h"
  by (auto simp: async_on_group_commit_backward_def Let_def
           split: sum.splits if_splits option.splits
           dest!: bulk_reload_group_keys)

lemma async_push_keys:
  assumes "async_tensor_push t (h, H) = Inr (tg, h', H')"
  shows "keys h' = (if has_key tg (keys h) then keys h else keys h @ [tg])"
proof (cases "isinstance_stray (cls (objs H t))")
  case True
  with assms show ?thesis
    by (force simp: async_tensor_push_def Let_def update_keys has_key_def)
next
  case False
  let ?tg = "(current_group h, tensor_count_current_group h)"
  let ?h1 = "h\<lparr>tensor_count_current_group := tensor_count_current_group h + 1\<rparr>"
  from assms False have tg: "tg = ?tg" and fresh: "\<not> has_key tg (keys h)"
    by (auto simp: async_tensor_push_def Let_def map_of_None_key
             split: if_splits sum.splits prod.splits)
  show ?thesis
  proof (cases "isinstance_QuantizedTensorBase (cls (objs H t))")
    case False
    with assms \<open>\<not> isinstance_stray (cls (objs H t))\<close> have
      "push_tensor False t ?tg (PObj t) (?h1, H) = Inr (h', H')"
      by (auto simp: async_tensor_push_def Let_def split: if_splits sum.splits)
    then show ?thesis using fresh tg
      by (auto simp: push_tensor_def Let_def update_keys has_key_def split: if_splits)
  next
    case True
    with assms \<open>\<not> isinstance_stray (cls (objs H t))\<close> obtain h5 H1 ts where
      l: "for_each (push_tensor True t ?tg) ts (h5, H1) = Inr (h', H')" and
      k5: "keys h5 = map fst (AList.update ?tg (PList []) (tensor_tag_to_state h))"
      by (auto simp: async_tensor_push_def Let_def split: if_splits sum.splits prod.splits)
    have "has_key ?tg (keys h5)" unfolding k5 by simp
    from push_loop_keys[OF l this] k5 fresh tg show ?thesis
      by (simp add: update_keys has_key_def)
  qed
qed

lemma sync_pop_keys:
  "sync_tensor_pop tg (h, H) = Inr (v, h', H') \<Longrightarrow> keys h' = removeAll tg (keys h)"
  by (auto simp: sync_tensor_pop_def Let_def delete_keys
           split: option.splits pyval.splits sum.splits prod.splits)

lemma async_pop_keys:
  "async_tensor_pop tg (h, H) = Inr (v, h', H') \<Longrightarrow> keys h' = removeAll tg (keys h)"
  by (auto simp: async_tensor_pop_def Let_def delete_keys
           split: option.splits pyval.splits sum.splits prod.splits if_splits
           dest!: restore_or_skip_slots)

lemma tags_inv_removeAll:
  "tags_inv ks h \<Longrightarrow> ctrl h' = ctrl h \<Longrightarrow> tags_inv (removeAll tg ks) h'"
  by (auto simp: tags_inv_def dest!: ctrl_eqD)

lemma async_step_keys:
  assumes st: "async_step x (h, H) = Inr (ev, h', H')" and inv: "tags_inv (keys h) h"
  shows "tags_inv (keys h') h'
       \<and> (case ev of
             Pushed t tg \<Rightarrow> \<not> has_key tg (keys h) \<and> keys h' = keys h @ [tg]
           | Popped tg v \<Rightarrow> x = Pop tg \<and> keys h' = removeAll tg (keys h)
           | Committed \<Rightarrow> keys h' = keys h)"
proof (cases x)
  case (Push t)
  with st obtain tg where p: "async_tensor_push t (h, H) = Inr (tg, h', H')" and ev: "ev = Pushed t tg"
    by (auto split: sum.splits)
  note c = async_push_counts[OF p] and k = async_push_keys[OF p]
  show ?thesis
  proof (cases "isinstance_stray (cls (objs H t))")
    case True
    with c have tg: "tg = (- 1, torch_tensor_count h)"
      and ttc: "torch_tensor_count h' = torch_tensor_count h + 1"
      and cg: "current_group h' = current_group h" by auto
    have fresh: "\<not> has_key tg (keys h)"
      using inv tg unfolding tags_inv_def has_key_def by fastforce
    with k have k': "keys h' = keys h @ [tg]" by simp
    have "tags_inv (keys h') h'"
      using inv tg ttc cg unfolding tags_inv_def k' by fastforce
    with fresh k' ev show ?thesis by simp
  next
    case False
    with c have tg: "tg = (current_group h, tensor_count_current_group h)"
      and fr: "map_of (tensor_tag_to_state h) tg = None"
      and ttc: "torch_tensor_count h' = torch_tensor_count h"
      and cg: "current_group h' = current_group h" by auto
    have fresh: "\<not> has_key tg (keys h)" using fr by (simp add: map_of_None_key)
    with k have k': "keys h' = keys h @ [tg]" by simp
    have "tags_inv (keys h') h'"
      using inv tg ttc cg unfolding tags_inv_def k' by fastforce
    with fresh k' ev show ?thesis by simp
  qed
next
  case (Pop tg)
  with st obtain v where p: "async_tensor_pop tg (h, H) = Inr (v, h', H')" and ev: "ev = Popped tg v"
    by (auto split: sum.splits)
  from async_pop_keys[OF p] tags_inv_removeAll[OF inv async_pop_ctrl[OF p], of tg] ev Pop
  show ?thesis by simp
next
  case CommitForward
  with st have c: "async_on_group_commit_forward (h, H) = Inr (h', H')" and ev: "ev = Committed"
    by (auto split: sum.splits)
  from commit_forward_counts[OF c] commit_forward_keys[OF c] inv ev show ?thesis
    by (simp add: tags_inv_def)
next
  case CommitBackward
  with st have c: "async_on_group_commit_backward (h, H) = Inr (h', H')" and ev: "ev = Committed"
    by (auto split: sum.splits)
  from commit_backward_counts[OF c] commit_backward_keys[OF c] inv ev show ?thesis
    by (simp add: tags_inv_def)
qed

lemma sync_step_keys:
  assumes st: "sync_step x (h, H) = Inr (ev, h', H')"
  shows "(case ev of
             Pushed t tg \<Rightarrow> \<not> has_key tg (keys h) \<and> keys h' = keys h @ [tg]
           | Popped tg v \<Rightarrow> x = Pop tg \<and> keys h' = removeAll tg (keys h)
           | Committed \<Rightarrow> keys h' = keys h)"
proof (cases x)
  case (Pop tg)
  with st obtain v where p: "sync_tensor_pop tg (h, H) = Inr (v, h', H')" and ev: "ev = Popped tg v"
    by (auto split: sum.splits)
  from sync_pop_keys[OF p] ev Pop show ?thesis by simp
qed (use st in \<open>auto simp: sync_tensor_push_def Let_def map_of_None_key update_keys has_key_def
                 sync_on_group_commit_forward_def sync_on_group_commit_backward_def
           split: if_splits sum.splits prod.splits\<close>)

lemma run_fresh:
  assumes step: "\<And>x w ev w'. stp x w = Inr (ev, w') \<Longrightarrow> I w \<Longrightarrow>
            I w' \<and> (case ev of
                       Pushed t tg \<Rightarrow> \<not> has_key tg (ks w) \<and> ks w' = ks w @ [tg]
                     | Popped tg v \<Rightarrow> x = Pop tg \<and> ks w' = removeAll tg (ks w)
                     | Committed \<Rightarrow> ks w' = ks w)"
  shows "run_ops stp ops w = Inr (evs, w') \<Longrightarrow> I w \<Longrightarrow>
         fresh_pushes (ks w) evs
         \<and> ((\<forall>x\<in>set ops. \<forall>tg. x \<noteq> Pop tg) \<longrightarrow>
              ks w' = ks w @ pushed_tags evs \<and> (distinct (ks w) \<longrightarrow> distinct (ks w')))"
proof (induction ops arbitrary: w evs)
  case Nil
  then show ?case by simp
next
  case (Cons x xs)
  from Cons.prems(1) obtain ev w1 evs1 where
    st: "stp x w = Inr (ev, w1)" and rest: "run_ops stp xs w1 = Inr (evs1, w')"
    and evs: "evs = ev # evs1"
    by (auto split: sum.splits prod.splits)
  note s1 = step[OF st Cons.prems(2)]
  from Cons.IH[OF rest] s1 have
    ih: "fresh_pushes (ks w1) evs1"
        "(\<forall>x\<in>set xs. \<forall>tg. x \<noteq> Pop tg) \<longrightarrow>
           ks w' = ks w1 @ pushed_tags evs1 \<and> (distinct (ks w1) \<longrightarrow> distinct (ks w'))"
    by auto
  show ?case
  proof (cases ev)
    case (Pushed t tg)
    with s1 have "\<not> has_key tg (ks w)" "ks w1 = ks w @ [tg]" by auto
    with ih evs Pushed show ?thesis by (auto simp: has_key_def)
  next
    case (Popped tg v)
    with s1 have xp: "x = Pop tg" and k: "ks w1 = removeAll tg (ks w)" by auto
    have np: "\<not> (\<forall>x\<in>set (x # xs). \<forall>tg. x \<noteq> Pop tg)"
    proof
      assume "\<forall>x\<in>set (x # xs). \<forall>tg. x \<noteq> Pop tg"
      then have "x \<noteq> Pop tg" by (metis list.set_intros(1))
      with xp show False by simp
    qed
    have "fresh_pushes (ks w) evs" using ih(1) evs Popped k by simp
    with np show ?thesis by blast
  next
    case Committed
    with s1 have "ks w1 = ks w" by auto
    with ih evs Committed show ?thesis by auto
  qed
qed

lemma run_stray:
  "run_ops async_step ops (h, H) = Inr (evs, h', H') \<Longrightarrow> 0 \<le> current_group h \<Longrightarrow>
     0 \<le> current_group h' \<and> torch_tensor_count h \<le> torch_tensor_count h'
     \<and> (\<forall>tg\<in>set (pushed_tags evs). is_stray_tag tg \<longrightarrow>
           torch_tensor_count h \<le> snd tg \<and> snd tg < torch_tensor_count h')
     \<and> distinct (filter is_stray_tag (pushed_tags evs))"
proof (induction ops arbitrary: h H evs)
  case Nil
  then show ?case by simp
next
  case (Cons x xs)
  from Cons.prems(1) obtain ev h1 H1 evs1 where
    st: "async_step x (h, H) = Inr (ev, h1, H1)"
    and rest: "run_ops async_step xs (h1, H1) = Inr (evs1, h', H')"
    and evs: "evs = ev # evs1"
    by (auto split: sum.splits prod.splits)
  have s1: "0 \<le> current_group h1 \<and> torch_tensor_count h \<le> torch_tensor_count h1
      \<and> (case ev of
            Pushed t tg \<Rightarrow>
              (if is_stray_tag tg
               then snd tg = torch_tensor_count h \<and> torch_tensor_count h1 = torch_tensor_count h + 1
               else True)
          | _ \<Rightarrow> True)"
  proof (cases x)
    case (Push t)
    with st obtain tg where p: "async_tensor_push t (h, H) = Inr (tg, h1, H1)"
      and ev: "ev = Pushed t tg"
      by (auto split: sum.splits)
    from async_push_counts[OF p] Cons.prems(2) ev show ?thesis
      by (auto simp: is_stray_tag_def split: if_splits)
  next
    case (Pop tg)
    with st obtain v where p: "async_tensor_pop tg (h, H) = Inr (v, h1, H1)"
      and ev: "ev = Popped tg v"
      by (auto split: sum.splits)
    from ctrl_eqD[OF async_pop_ctrl[OF p]] Cons.prems(2) ev show ?thesis by simp
  next
    case CommitForward
    with st have c: "async_on_group_commit_forward (h, H) = Inr (h1, H1)" and ev: "ev = Committed"
      by (auto split: sum.splits)
    from commit_forward_counts[OF c] Cons.prems(2) ev show ?thesis by simp
  next
    case CommitBackward
    with st have c: "async_on_group_commit_backward (h, H) = Inr (h1, H1)" and ev: "ev = Committed"
      by (auto split: sum.splits)
    from commit_backward_counts[OF c] ev show ?thesis by simp
  qed
  then have cg1: "0 \<le> current_group h1" by simp
  note ih = Cons.IH[OF rest cg1]
  show ?case
  proof (cases ev)
    case (Pushed t tg)
    show ?thesis
    proof (cases "is_stray_tag tg")
      case True
      with s1 Pushed have tg: "snd tg = torch_tensor_count h"
        "torch_tensor_count h1 = torch_tensor_count h + 1" by auto
      from ih tg have "tg \<notin> set (filter is_stray_tag (pushed_tags evs1))" by fastforce
      with ih tg True show ?thesis unfolding evs Pushed by fastforce
    next
      case False
      with ih s1 show ?thesis unfolding evs Pushed by fastforce
    qed
  next
    case (Popped tg v)
    with ih s1 show ?thesis unfolding evs by fastforce
  next
    case Committed
    with ih s1 show ?thesis unfolding evs by fastforce
  qed
qed

text \<open>
  Claim C7 says that every tag \<^verbatim>\<open>tensor_push\<close> returns in a forward/backward session differs
  from all tags returned before.  The assertion in \<^verbatim>\<open>tensor_push\<close> looks only at the keys of
  \<^verbatim>\<open>tensor_tag_to_state\<close>, and \<^verbatim>\<open>tensor_pop\<close> removes the key.  In the session below, on
  either handler, the second push returns \<^verbatim>\<open>(1, 0)\<close>; the second forward commit resets
  \<^verbatim>\<open>tensor_count_current_group\<close> to 0 and the backward commit brings \<^verbatim>\<open>current_group\<close> back
  to 1; tag \<^verbatim>\<open>(1, 0)\<close> is popped, and the next push returns \<^verbatim>\<open>(1, 0)\<close> again, with no
  assertion.
\<close>

theorem tags_reused_counterexample:
  "\<not> isl (run_ops sync_step
            [Push 1, CommitForward, Push 0, CommitForward, CommitBackward, Pop (1, 0), Push 0]
            (sync_init 1 tensor_need_offloading_checker_activations, example_store))
   \<and> pushed_tags (fst (projr (run_ops sync_step
            [Push 1, CommitForward, Push 0, CommitForward, CommitBackward, Pop (1, 0), Push 0]
            (sync_init 1 tensor_need_offloading_checker_activations, example_store))))
       = [(0, 0), (1, 0), (1, 0)]
   \<and> \<not> distinct (pushed_tags (fst (projr (run_ops sync_step
            [Push 1, CommitForward, Push 0, CommitForward, CommitBackward, Pop (1, 0), Push 0]
            (sync_init 1 tensor_need_offloading_checker_activations, example_store)))))
   \<and> \<not> isl (run_ops async_step
            [Push 1, CommitForward, Push 0, CommitForward, CommitBackward, Pop (1, 0), Push 0]
            (async_init 1 2 tensor_need_offloading_checker_activations False, example_store))
   \<and> pushed_tags (fst (projr (run_ops async_step
            [Push 1, CommitForward, Push 0, CommitForward, CommitBackward, Pop (1, 0), Push 0]
            (async_init 1 2 tensor_need_offloading_checker_activations False, example_store))))
       = [(0, 0), (1, 0), (1, 0)]
   \<and> \<not> distinct (pushed_tags (fst (projr (run_ops async_step
            [Push 1, CommitForward, Push 0, CommitForward, CommitBackward, Pop (1, 0), Push 0]
            (async_init 1 2 tensor_need_offloading_checker_activations False, example_store)))))"
  by (intro conjI) code_simp+

text \<open>
  Claim C7, as amended.  In every session on a new handler, synchronous or asynchronous,
  that does not raise, every tag a push returns differs from every tag that was returned
  before and not popped since.  Stray tags are never returned twice, popped or not.  If the
  session has no pop, all returned tags are pairwise distinct.  A push whose tag
  \<^verbatim>\<open>(current_group, tensor_count_current_group)\<close> is a key of \<^verbatim>\<open>tensor_tag_to_state\<close> fails
  its assertion; in the asynchronous handler this is the push of a tensor that is not stray.
\<close>

theorem tags_unique_while_stored:
  "(run_ops sync_step ops (sync_init G checker, H) = Inr (evs, ws)
      \<longrightarrow> fresh_pushes [] evs
          \<and> ((\<forall>x\<in>set ops. \<forall>tg. x \<noteq> Pop tg) \<longrightarrow> distinct (pushed_tags evs)))
   \<and> (run_ops async_step ops (async_init G L checker db, H) = Inr (evs', wa)
      \<longrightarrow> fresh_pushes [] evs'
          \<and> distinct (filter is_stray_tag (pushed_tags evs'))
          \<and> ((\<forall>x\<in>set ops. \<forall>tg. x \<noteq> Pop tg) \<longrightarrow> distinct (pushed_tags evs')))
   \<and> (map_of (tensor_tag_to_state hs) (current_group hs, tensor_count_current_group hs) \<noteq> None
      \<longrightarrow> sync_tensor_push t (hs, H) = Inl AssertionError)
   \<and> (\<not> isinstance_stray (cls (objs H t))
      \<and> map_of (tensor_tag_to_state ha) (current_group ha, tensor_count_current_group ha) \<noteq> None
      \<longrightarrow> async_tensor_push t (ha, H) = Inl AssertionError)"
proof -
  have a: "fresh_pushes [] evs
          \<and> ((\<forall>x\<in>set ops. \<forall>tg. x \<noteq> Pop tg) \<longrightarrow> distinct (pushed_tags evs))"
    if run: "run_ops sync_step ops (sync_init G checker, H) = Inr (evs, ws)"
  proof -
    have "fresh_pushes (keys (fst (sync_init G checker, H))) evs
        \<and> ((\<forall>x\<in>set ops. \<forall>tg. x \<noteq> Pop tg) \<longrightarrow>
             keys (fst ws) = keys (fst (sync_init G checker, H)) @ pushed_tags evs
           \<and> (distinct (keys (fst (sync_init G checker, H))) \<longrightarrow> distinct (keys (fst ws))))"
    proof (rule run_fresh[where stp = sync_step and I = "\<lambda>w. True" and ks = "\<lambda>w. keys (fst w)",
            OF _ run])
      fix x w ev w'
      assume "sync_step x (w :: sync_handler \<times> store) = Inr (ev, w')"
      then show "True \<and> (case ev of
                       Pushed t tg \<Rightarrow> \<not> has_key tg (keys (fst w)) \<and> keys (fst w') = keys (fst w) @ [tg]
                     | Popped tg v \<Rightarrow> x = Pop tg \<and> keys (fst w') = removeAll tg (keys (fst w))
                     | Committed \<Rightarrow> keys (fst w') = keys (fst w))"
        using sync_step_keys[of x "fst w" "snd w" ev "fst w'" "snd w'"] by simp
    qed simp
    then show ?thesis by (auto simp: sync_init_def)
  qed
  have b: "fresh_pushes [] evs'
          \<and> distinct (filter is_stray_tag (pushed_tags evs'))
          \<and> ((\<forall>x\<in>set ops. \<forall>tg. x \<noteq> Pop tg) \<longrightarrow> distinct (pushed_tags evs'))"
    if run: "run_ops async_step ops (async_init G L checker db, H) = Inr (evs', wa)"
  proof -
    have "fresh_pushes (keys (fst (async_init G L checker db, H))) evs'
        \<and> ((\<forall>x\<in>set ops. \<forall>tg. x \<noteq> Pop tg) \<longrightarrow>
             keys (fst wa) = keys (fst (async_init G L checker db, H)) @ pushed_tags evs'
           \<and> (distinct (keys (fst (async_init G L checker db, H))) \<longrightarrow> distinct (keys (fst wa))))"
    proof (rule run_fresh[where stp = async_step and I = "\<lambda>w. tags_inv (keys (fst w)) (fst w)"
              and ks = "\<lambda>w. keys (fst w)", OF _ run])
      fix x w ev w'
      assume "async_step x w = Inr (ev, w')" "tags_inv (keys (fst w)) (fst w)"
      then show "tags_inv (keys (fst w')) (fst w') \<and> (case ev of
                       Pushed t tg \<Rightarrow> \<not> has_key tg (keys (fst w)) \<and> keys (fst w') = keys (fst w) @ [tg]
                     | Popped tg v \<Rightarrow> x = Pop tg \<and> keys (fst w') = removeAll tg (keys (fst w))
                     | Committed \<Rightarrow> keys (fst w') = keys (fst w))"
        using async_step_keys[of x "fst w" "snd w" ev "fst w'" "snd w'"] by simp
    next
      show "tags_inv (keys (fst (async_init G L checker db, H))) (fst (async_init G L checker db, H))"
        by (simp add: tags_inv_def async_init_def)
    qed
    moreover have "distinct (filter is_stray_tag (pushed_tags evs'))"
      using run_stray[of ops "async_init G L checker db" H evs' "fst wa" "snd wa"] run
      by (simp add: async_init_def)
    ultimately show ?thesis by (auto simp: async_init_def)
  qed
  have c: "sync_tensor_push t (hs, H) = Inl AssertionError"
    if "map_of (tensor_tag_to_state hs) (current_group hs, tensor_count_current_group hs) \<noteq> None"
    using that by (auto simp: sync_tensor_push_def Let_def)
  have d: "async_tensor_push t (ha, H) = Inl AssertionError"
    if "\<not> isinstance_stray (cls (objs H t))"
       "map_of (tensor_tag_to_state ha) (current_group ha, tensor_count_current_group ha) \<noteq> None"
    using that by (auto simp: async_tensor_push_def Let_def)
  from a b c d show ?thesis by blast
qed

theorem tags_unique_while_stored_witness:
  "\<exists>evs ws evs' wa evs2 ws2 evs2' wa2.
     run_ops sync_step
       [Push 1, CommitForward, Push 0, CommitForward, CommitBackward, Pop (1, 0), Push 0]
       (sync_init 1 tensor_need_offloading_checker_activations, example_store) = Inr (evs, ws)
   \<and> pushed_tags evs = [(0, 0), (1, 0), (1, 0)]
   \<and> fresh_pushes [] evs
   \<and> run_ops async_step
       [Push 1, CommitForward, Push 0, CommitForward, CommitBackward, Pop (1, 0), Push 0]
       (async_init 1 2 tensor_need_offloading_checker_activations False, example_store)
       = Inr (evs', wa)
   \<and> pushed_tags evs' = [(0, 0), (1, 0), (1, 0)]
   \<and> fresh_pushes [] evs'
   \<and> run_ops sync_step [Push 0, Push 1, CommitForward, Push 0, CommitBackward]
       (sync_init 1 tensor_need_offloading_checker_activations, example_store) = Inr (evs2, ws2)
   \<and> pushed_tags evs2 = [(0, 0), (0, 1), (1, 0)]
   \<and> distinct (pushed_tags evs2)
   \<and> run_ops async_step [Push 0, Push 2, CommitForward, Push 3, Push 2]
       (async_init 1 2 tensor_need_offloading_checker_activations False, example_store)
       = Inr (evs2', wa2)
   \<and> pushed_tags evs2' = [(0, 0), (- 1, 0), (1, 0), (- 1, 1)]
   \<and> distinct (pushed_tags evs2')
   \<and> distinct (filter is_stray_tag (pushed_tags evs2'))
   \<and> sync_tensor_push 0
        ((sync_init 1 tensor_need_offloading_checker_activations)
           \<lparr>tensor_tag_to_state := [((0, 0), PObj 1)]\<rparr>, example_store) = Inl AssertionError
   \<and> async_tensor_push 0
        ((async_init 1 2 tensor_need_offloading_checker_activations False)
           \<lparr>tensor_tag_to_state := [((0, 0), PObj 1)]\<rparr>, example_store) = Inl AssertionError"
proof -
  define ops0 where
    "ops0 = [Push 1, CommitForward, Push 0, CommitForward, CommitBackward, Pop (1, 0), Push 0]"
  define ops1 where "ops1 = [Push 0, Push 1, CommitForward, Push 0, CommitBackward]"
  define ops2 where "ops2 = [Push 0, Push 2, CommitForward, Push 3, Push 2]"
  define hs where "hs = (sync_init 1 tensor_need_offloading_checker_activations)
           \<lparr>tensor_tag_to_state := [((0, 0), PObj 1)]\<rparr>"
  define ha where "ha = (async_init 1 2 tensor_need_offloading_checker_activations False)
           \<lparr>tensor_tag_to_state := [((0, 0), PObj 1)]\<rparr>"
  define r0 where "r0 = projr (run_ops sync_step ops0
       (sync_init 1 tensor_need_offloading_checker_activations, example_store))"
  define q0 where "q0 = projr (run_ops async_step ops0
       (async_init 1 2 tensor_need_offloading_checker_activations False, example_store))"
  define r1 where "r1 = projr (run_ops sync_step ops1
       (sync_init 1 tensor_need_offloading_checker_activations, example_store))"
  define q1 where "q1 = projr (run_ops async_step ops1
       (async_init 1 2 tensor_need_offloading_checker_activations False, example_store))"
  define r2 where "r2 = projr (run_ops sync_step ops2
       (sync_init 1 tensor_need_offloading_checker_activations, example_store))"
  define q2 where "q2 = projr (run_ops async_step ops2
       (async_init 1 2 tensor_need_offloading_checker_activations False, example_store))"
  have np1: "\<forall>x\<in>set ops1. \<forall>tg. x \<noteq> Pop tg" by (simp add: ops1_def)
  have np2: "\<forall>x\<in>set ops2. \<forall>tg. x \<noteq> Pop tg" by (simp add: ops2_def)
  have run_r0: "run_ops sync_step ops0
       (sync_init 1 tensor_need_offloading_checker_activations, example_store)
       = Inr (fst r0, snd r0)"
    unfolding r0_def ops0_def by (rule not_isl_Inr) code_simp
  have run_q0: "run_ops async_step ops0
       (async_init 1 2 tensor_need_offloading_checker_activations False, example_store)
       = Inr (fst q0, snd q0)"
    unfolding q0_def ops0_def by (rule not_isl_Inr) code_simp
  have run_r1: "run_ops sync_step ops1
       (sync_init 1 tensor_need_offloading_checker_activations, example_store)
       = Inr (fst r1, snd r1)"
    unfolding r1_def ops1_def by (rule not_isl_Inr) code_simp
  have run_q2: "run_ops async_step ops2
       (async_init 1 2 tensor_need_offloading_checker_activations False, example_store)
       = Inr (fst q2, snd q2)"
    unfolding q2_def ops2_def by (rule not_isl_Inr) code_simp
  have t_r0: "pushed_tags (fst r0) = [(0, 0), (1, 0), (1, 0)]"
    unfolding r0_def ops0_def by code_simp
  have t_q0: "pushed_tags (fst q0) = [(0, 0), (1, 0), (1, 0)]"
    unfolding q0_def ops0_def by code_simp
  have t_r1: "pushed_tags (fst r1) = [(0, 0), (0, 1), (1, 0)]"
    unfolding r1_def ops1_def by code_simp
  have t_q2: "pushed_tags (fst q2) = [(0, 0), (- 1, 0), (1, 0), (- 1, 1)]"
    unfolding q2_def ops2_def by code_simp
  have dup1: "map_of (tensor_tag_to_state hs) (current_group hs, tensor_count_current_group hs)
       \<noteq> None"
    by (simp add: hs_def sync_init_def)
  have dup2: "\<not> isinstance_stray (cls (objs example_store 0))
       \<and> map_of (tensor_tag_to_state ha) (current_group ha, tensor_count_current_group ha)
       \<noteq> None"
    by (simp add: ha_def async_init_def example_store_def example_objs_def new_tensor_def)
  note th0 = tags_unique_while_stored[of ops0 1 tensor_need_offloading_checker_activations
      example_store "fst r0" "snd r0" 2 False "fst q0" "snd q0" hs 0 ha]
  note th1 = tags_unique_while_stored[of ops1 1 tensor_need_offloading_checker_activations
      example_store "fst r1" "snd r1" 2 False "fst q1" "snd q1" hs 0 ha]
  note th2 = tags_unique_while_stored[of ops2 1 tensor_need_offloading_checker_activations
      example_store "fst r2" "snd r2" 2 False "fst q2" "snd q2" hs 0 ha]
  have f_r0: "fresh_pushes [] (fst r0)" using th0 run_r0 by blast
  have f_q0: "fresh_pushes [] (fst q0)" using th0 run_q0 by blast
  have d_r1: "distinct (pushed_tags (fst r1))" using th1 np1 run_r1 by blast
  have d_q2: "distinct (pushed_tags (fst q2))" using th2 np2 run_q2 by blast
  have s_q2: "distinct (filter is_stray_tag (pushed_tags (fst q2)))" using th2 run_q2 by blast
  have a1: "sync_tensor_push 0 (hs, example_store) = Inl AssertionError" using th0 dup1 by blast
  have a2: "async_tensor_push 0 (ha, example_store) = Inl AssertionError" using th0 dup2 by blast
  show ?thesis
    using run_r0[unfolded ops0_def] t_r0 f_r0 run_q0[unfolded ops0_def] t_q0 f_q0
      run_r1[unfolded ops1_def] t_r1 d_r1 run_q2[unfolded ops2_def] t_q2 d_q2 s_q2
      a1[unfolded hs_def] a2[unfolded ha_def]
    by (intro exI[of _ "fst r0"] exI[of _ "snd r0"] exI[of _ "fst q0"] exI[of _ "snd q0"]
              exI[of _ "fst r1"] exI[of _ "snd r1"] exI[of _ "fst q2"] exI[of _ "snd q2"] conjI)
qed


section \<open>Frames of the forward commit\<close>

declare split_paired_All [simp del] split_paired_Ex [simp del]

lemma clsframe_refl [simp]: "clsframe H H"
  by (simp add: clsframe_def)

lemma clsframe_trans: "clsframe H H1 \<Longrightarrow> clsframe H1 H2 \<Longrightarrow> clsframe H H2"
  by (auto simp: clsframe_def)

lemma clsframe_upd:
  "(\<And>ob. cls (f ob) = cls ob) \<Longrightarrow> clsframe H (upd_obj r f H)"
  by (simp add: clsframe_def upd_obj_def)

lemma clsframe_alloc: "alloc ob H = (r, H') \<Longrightarrow> clsframe H H'"
  by (auto simp: clsframe_def alloc_def)

lemma clsframe_set_data_empty: "clsframe H (set_data_empty r H)"
  by (simp add: set_data_empty_def clsframe_upd)

lemma clsframe_copy_into: "clsframe H (copy_into d s H)"
  by (simp add: copy_into_def clsframe_upd)

lemma clsframe_offload: "offload v H = Inr (st, H') \<Longrightarrow> clsframe H H'"
  by (auto simp: offload_def Let_def split: pyval.splits prod.splits
           intro!: clsframe_trans[OF clsframe_alloc clsframe_copy_into])

lemma clsframe_empty_like: "empty_like v H = Inr (b, H') \<Longrightarrow> clsframe H H'"
  by (auto simp: empty_like_def Let_def split: pyval.splits prod.splits dest: clsframe_alloc)

lemma clsframe_reload: "reload st nb buf H = Inr (v, H') \<Longrightarrow> clsframe H H'"
  by (auto simp: reload_def tensor_to_def Let_def clsframe_copy_into
           split: pyval.splits prod.splits if_splits dest: clsframe_alloc)

lemma clsframe_prepare: "prepare_for_saving c H = (ts, H') \<Longrightarrow> clsframe H H'"
  by (auto simp: prepare_for_saving_def intro!: clsframe_upd)

lemma clsframe_restore: "restore_from_saved c ts H = Inr H' \<Longrightarrow> clsframe H H'"
  by (auto simp: restore_from_saved_def Let_def clsframe_def upd_obj_def split: if_splits)

lemma clsframe_clear_fields: "clear_fields ts H = Inr H' \<Longrightarrow> clsframe H H'"
proof (induction ts H rule: clear_fields.induct)
  case (3 r ts H)
  then show ?case
    using clsframe_trans[OF clsframe_set_data_empty] by auto
qed auto

lemma clsframe_clear: "clear c H = Inr H' \<Longrightarrow> clsframe H H'"
  by (auto simp: clear_def split: sum.splits if_splits
           dest!: clsframe_clear_fields
           intro: clsframe_trans[OF _ clsframe_upd])


lemma regs_upd [simp]:
  "regs (h\<lparr>tensor_tag_to_state := a\<rparr>) = regs h"
  "regs (h\<lparr>tensor_tag_to_buf := b\<rparr>) = regs h"
  "regs (h\<lparr>reload_double_buffer := f\<rparr>) = regs h"
  "regs (h\<lparr>double_buffer_created := g\<rparr>) = regs h"
  "regs (h\<lparr>offloaded_group_count := i\<rparr>) = regs h"
  "regs (h\<lparr>current_group := j\<rparr>) = regs h"
  "regs (h\<lparr>tensor_count_current_group := k\<rparr>) = regs h"
  "regs (h\<lparr>torch_tensor_count := l\<rparr>) = regs h"
  by (simp_all add: regs_def)

lemma regs_eqD:
  "regs h' = regs h \<Longrightarrow> fp8_tensor_object_map h' = fp8_tensor_object_map h
     \<and> float8_transpose_cache_valid h' = float8_transpose_cache_valid h
     \<and> dereferencing_list h' = dereferencing_list h"
  by (simp add: regs_def)

lemma is_list_at_upd [simp]:
  "is_list_at (h\<lparr>tensor_tag_to_buf := b\<rparr>) t = is_list_at h t"
  "is_list_at (h\<lparr>reload_double_buffer := f\<rparr>) t = is_list_at h t"
  "is_list_at (h\<lparr>double_buffer_created := g\<rparr>) t = is_list_at h t"
  "is_list_at (h\<lparr>offloaded_group_count := i\<rparr>) t = is_list_at h t"
  "is_list_at (h\<lparr>current_group := j\<rparr>) t = is_list_at h t"
  "is_list_at (h\<lparr>tensor_count_current_group := k\<rparr>) t = is_list_at h t"
  "is_list_at (h\<lparr>torch_tensor_count := l\<rparr>) t = is_list_at h t"
  "is_list_at (h\<lparr>fp8_tensor_object_map := m\<rparr>) t = is_list_at h t"
  "is_list_at (h\<lparr>float8_transpose_cache_valid := n\<rparr>) t = is_list_at h t"
  "is_list_at (h\<lparr>dereferencing_list := p\<rparr>) t = is_list_at h t"
  by (simp_all add: is_list_at_def)

lemma is_list_at_update:
  "is_list_at (h\<lparr>tensor_tag_to_state := AList.update k v (tensor_tag_to_state h)\<rparr>) t
     = (if k = t then (\<exists>xs. v = PList xs) else is_list_at h t)"
  by (auto simp: is_list_at_def update_conv')

lemma dict_append_list:
  "dict_append (tensor_tag_to_state h) k v = Inr d \<Longrightarrow>
     is_list_at (h\<lparr>tensor_tag_to_state := d\<rparr>) t = is_list_at h t"
  by (auto simp: dict_append_def is_list_at_def update_conv' split: option.splits pyval.splits if_splits)

text \<open>push_tensor\<close>

lemma push_tensor_regs:
  "push_tensor q c tg x (h, H) = Inr (h', H') \<Longrightarrow> regs h' = regs h"
  by (auto simp: push_tensor_def Let_def split: if_splits sum.splits)

lemma push_tensor_list:
  "push_tensor q c tg x (h, H) = Inr (h', H') \<Longrightarrow> q \<or> tg \<noteq> t \<Longrightarrow>
     is_list_at h' t = is_list_at h t"
  by (auto simp: push_tensor_def Let_def is_list_at_update split: if_splits sum.splits
           dest!: dict_append_list[where t = t])

lemma push_tensor_cls:
  "push_tensor q c tg x (h, H) = Inr (h', H') \<Longrightarrow> clsframe H H'"
  by (auto simp: push_tensor_def Let_def split: if_splits sum.splits dest: clsframe_clear)

lemma push_loop_facts:
  assumes "for_each (push_tensor q c tg) ts (h, H) = Inr (h', H')" "q \<or> tg \<noteq> t"
  shows "regs h' = regs h \<and> is_list_at h' t = is_list_at h t \<and> clsframe H H'"
proof -
  have "regs (fst (h', H')) = regs h \<and> is_list_at (fst (h', H')) t = is_list_at h t
        \<and> clsframe H (snd (h', H'))"
  proof (rule for_each_inv[OF assms(1), where
        P = "\<lambda>w. regs (fst w) = regs h \<and> is_list_at (fst w) t = is_list_at h t
                \<and> clsframe H (snd w)"])
    fix x v v'
    assume v: "regs (fst v) = regs h \<and> is_list_at (fst v) t = is_list_at h t \<and> clsframe H (snd v)"
      and b: "push_tensor q c tg x v = Inr v'"
    obtain a A where v_eq: "v = (a, A)" by (cases v)
    obtain a' A' where v'_eq: "v' = (a', A')" by (cases v')
    note b' = b[unfolded v_eq v'_eq]
    from push_tensor_regs[OF b'] push_tensor_list[OF b' assms(2)] push_tensor_cls[OF b'] v
    show "regs (fst v') = regs h \<and> is_list_at (fst v') t = is_list_at h t \<and> clsframe H (snd v')"
      unfolding v_eq v'_eq by (auto intro: clsframe_trans)
  qed simp
  then show ?thesis by simp
qed


lemma async_push_effect:
  assumes p: "async_tensor_push x (h, H) = Inr (t', h', H')"
  shows "clsframe H H'
       \<and> (\<forall>t. t \<noteq> t' \<longrightarrow> is_list_at h' t = is_list_at h t
               \<and> map_of (fp8_tensor_object_map h') t = map_of (fp8_tensor_object_map h) t
               \<and> map_of (float8_transpose_cache_valid h') t
                   = map_of (float8_transpose_cache_valid h) t)
       \<and> (if isinstance_stray (cls (objs H x)) then fst t' = - 1 else fst t' = current_group h)
       \<and> (\<not> isinstance_stray (cls (objs H x)) \<and> isinstance_QuantizedTensorBase (cls (objs H x))
            \<longrightarrow> is_list_at h' t' \<and> map_of (fp8_tensor_object_map h') t' = Some x
              \<and> (isinstance_Float8Tensor (cls (objs H x)) \<longrightarrow>
                    map_of (float8_transpose_cache_valid h') t'
                      = Some (transpose_invalid (objs H x))))
       \<and> (isinstance_stray (cls (objs H x)) \<or> \<not> isinstance_QuantizedTensorBase (cls (objs H x))
            \<longrightarrow> fp8_tensor_object_map h' = fp8_tensor_object_map h
              \<and> float8_transpose_cache_valid h' = float8_transpose_cache_valid h)"
proof (cases "isinstance_stray (cls (objs H x))")
  case True
  with p show ?thesis
    by (auto simp: async_tensor_push_def Let_def is_list_at_def update_conv')
next
  case ns: False
  let ?t = "(current_group h, tensor_count_current_group h)"
  let ?h1 = "h\<lparr>tensor_count_current_group := tensor_count_current_group h + 1\<rparr>"
  from p ns have t': "t' = ?t"
    by (auto simp: async_tensor_push_def Let_def split: if_splits sum.splits prod.splits)
  show ?thesis
  proof (cases "isinstance_QuantizedTensorBase (cls (objs H x))")
    case False
    with p ns have l: "for_each (push_tensor False x ?t) [PObj x] (?h1, H) = Inr (h', H')"
      by (auto simp: async_tensor_push_def Let_def split: if_splits sum.splits)
    have "regs h' = regs ?h1 \<and> is_list_at h' t = is_list_at ?h1 t \<and> clsframe H H'"
      if "t \<noteq> t'" for t
      using push_loop_facts[OF l, of t] that t' by simp
    moreover have "regs h' = regs ?h1 \<and> clsframe H H'"
      using push_loop_facts[OF l, of "(fst ?t + 1, snd ?t)"] by simp
    ultimately show ?thesis using ns False t' by (auto simp: regs_def)
  next
    case True
    define H1 where "H1 = upd_obj x (\<lambda>ob. ob\<lparr>underlying := map (\<lambda>_. PNone) (underlying ob)\<rparr>) H"
    define h2 where "h2 = ?h1\<lparr>tensor_tag_to_state :=
                                AList.update ?t (PList []) (tensor_tag_to_state ?h1),
                             tensor_tag_to_buf :=
                                AList.update ?t (PList []) (tensor_tag_to_buf ?h1)\<rparr>"
    define h3 where "h3 = (if x \<in> snd ` set (fp8_tensor_object_map h2)
                           then h2\<lparr>dereferencing_list := dereferencing_list h2 @ [?t]\<rparr>
                           else h2)"
    define h4 where "h4 = h3\<lparr>fp8_tensor_object_map :=
                                AList.update ?t x (fp8_tensor_object_map h3)\<rparr>"
    define h5 where "h5 = (if isinstance_Float8Tensor (cls (objs H1 x))
                           then h4\<lparr>float8_transpose_cache_valid :=
                                     AList.update ?t (transpose_invalid (objs H1 x))
                                       (float8_transpose_cache_valid h4)\<rparr>
                           else h4)"
    from p ns True have
      l: "for_each (push_tensor True x ?t) (underlying (objs H x)) (h5, H1) = Inr (h', H')"
      unfolding h5_def h4_def h3_def h2_def H1_def
      by (auto simp: async_tensor_push_def Let_def prepare_for_saving_def
               split: if_splits sum.splits)
    have H1: "clsframe H H1" "cls (objs H1 x) = cls (objs H x)"
      "transpose_invalid (objs H1 x) = transpose_invalid (objs H x)"
      unfolding H1_def by (simp_all add: clsframe_upd) (simp_all add: upd_obj_def)
    have f: "regs h' = regs h5 \<and> is_list_at h' t = is_list_at h5 t \<and> clsframe H1 H'" for t
      using push_loop_facts[OF l, of t] by simp
    have l5: "is_list_at h5 t = (if t = ?t then True else is_list_at h t)" for t
      unfolding h5_def h4_def h3_def h2_def by (simp add: is_list_at_def update_conv')
    have fp: "map_of (fp8_tensor_object_map h5) t
               = (if t = ?t then Some x else map_of (fp8_tensor_object_map h) t)" for t
      unfolding h5_def h4_def h3_def h2_def by (simp add: update_conv')
    have sn: "map_of (float8_transpose_cache_valid h5) t
               = (if t = ?t \<and> isinstance_Float8Tensor (cls (objs H x))
                  then Some (transpose_invalid (objs H x))
                  else map_of (float8_transpose_cache_valid h) t)" for t
      unfolding h5_def h4_def h3_def h2_def using H1 by (simp add: update_conv')
    from f[of t'] have r: "fp8_tensor_object_map h' = fp8_tensor_object_map h5"
      "float8_transpose_cache_valid h' = float8_transpose_cache_valid h5"
      "clsframe H1 H'"
      by (simp_all add: regs_def)
    show ?thesis
      using f l5 fp sn r ns True t' clsframe_trans[OF H1(1) r(3)] by auto
  qed
qed


lemma fwd_keep_refl [simp]: "fwd_keep t w w"
  by (simp add: fwd_keep_def)

lemma fwd_keep_trans: "fwd_keep t w w1 \<Longrightarrow> fwd_keep t w1 w2 \<Longrightarrow> fwd_keep t w w2"
  by (auto simp: fwd_keep_def intro: clsframe_trans)

lemma fwd_keep_loop:
  assumes run: "for_each body xs w = Inr w'"
    and step: "\<And>x v v'. x \<in> set xs \<Longrightarrow> body x v = Inr v' \<Longrightarrow> fwd_keep t v v'"
  shows "fwd_keep t w w'"
  by (rule for_each_inv[OF run, where P = "\<lambda>v. fwd_keep t w v"])
     (auto intro: fwd_keep_trans step)

lemma offload_tensor_keep:
  assumes "offload_tensor q tg x (st, h, H) = Inr (st', h', H')" "q \<or> tg \<noteq> t"
  shows "fwd_keep t (h, H) (h', H')"
  using assms
  by (auto simp: offload_tensor_def fwd_keep_def is_list_at_update
           split: if_splits sum.splits prod.splits
           dest: clsframe_offload dict_append_list[where t = t])

lemma offload_loop_keep:
  assumes run: "for_each (offload_tensor q tg) ts (st, h, H) = Inr (st', h', H')"
    and q: "q \<or> tg \<noteq> t"
  shows "fwd_keep t (h, H) (h', H')"
proof -
  have "fwd_keep t (h, H) (snd (st', h', H'))"
  proof (rule for_each_inv[OF run, where P = "\<lambda>v. fwd_keep t (h, H) (snd v)"])
    fix x v v'
    assume v: "fwd_keep t (h, H) (snd v)" and b: "offload_tensor q tg x v = Inr v'"
    obtain s a A where v_eq: "v = (s, a, A)" by (cases v)
    obtain s' a' A' where v'_eq: "v' = (s', a', A')" by (cases v')
    from offload_tensor_keep[OF b[unfolded v_eq v'_eq] q] v
    show "fwd_keep t (h, H) (snd v')" unfolding v_eq v'_eq by (auto intro: fwd_keep_trans)
  qed simp
  then show ?thesis by simp
qed

lemma bulk_offload_item_keep:
  assumes b: "bulk_offload_item g item (h, H) = Inr (h', H')"
    and it: "fst item = t \<longrightarrow> (\<exists>xs. snd item = PList xs)"
  shows "fwd_keep t (h, H) (h', H')"
proof -
  obtain tg st where item: "item = (tg, st)" by (cases item)
  show ?thesis
  proof (cases "fst tg = g")
    case False
    with b show ?thesis by (simp add: bulk_offload_item_def item)
  next
    case True
    show ?thesis
    proof (cases st)
      case (PList xs)
      let ?h = "h\<lparr>tensor_tag_to_state := AList.update tg (PList []) (tensor_tag_to_state h)\<rparr>"
      from b True PList obtain st' where
        l: "for_each (offload_tensor True tg) xs (st, ?h, H) = Inr (st', h', H')"
        by (auto simp: bulk_offload_item_def item split: sum.splits)
      have "fwd_keep t (h, H) (?h, H)" by (simp add: fwd_keep_def is_list_at_update)
      from fwd_keep_trans[OF this offload_loop_keep[OF l]] show ?thesis by simp
    next
      case (PTuple d c)
      with b True show ?thesis by (simp add: bulk_offload_item_def item)
    next
      case PNone
      with b True obtain st' where
        l: "offload_tensor False tg st (st, h, H) = Inr (st', h', H')"
        by (auto simp: bulk_offload_item_def item split: sum.splits)
      have "tg \<noteq> t" using it item PNone by auto
      from offload_tensor_keep[OF l] this show ?thesis by simp
    next
      case (PObj r)
      with b True obtain st' where
        l: "offload_tensor False tg st (st, h, H) = Inr (st', h', H')"
        by (auto simp: bulk_offload_item_def item split: sum.splits)
      have "tg \<noteq> t" using it item PObj by auto
      from offload_tensor_keep[OF l] this show ?thesis by simp
    qed
  qed
qed

lemma distinct_item_list:
  assumes "distinct (keys h)" "is_list_at h t" "x \<in> set (tensor_tag_to_state h)" "fst x = t"
  shows "\<exists>xs. snd x = PList xs"
proof -
  from assms(1,3) have "map_of (tensor_tag_to_state h) (fst x) = Some (snd x)"
    by (cases x) (simp add: map_of_is_SomeI)
  with assms(2,4) show ?thesis by (auto simp: is_list_at_def)
qed

lemma bulk_offload_group_keep:
  assumes b: "bulk_offload_group g (h, H) = Inr (h', H')" and d: "distinct (keys h)"
  shows "fwd_keep t (h, H) (h', H')"
proof (cases "is_list_at h t")
  case True
  show ?thesis
  proof (rule fwd_keep_loop[OF b[unfolded bulk_offload_group_def fst_conv]])
    fix x v v'
    assume x: "x \<in> set (tensor_tag_to_state h)" and s: "bulk_offload_item g x v = Inr v'"
    have "fst x = t \<longrightarrow> (\<exists>xs. snd x = PList xs)"
      using distinct_item_list[OF d True x] by blast
    from bulk_offload_item_keep[OF _ this, of g "fst v" "snd v" "fst v'" "snd v'"] s
    show "fwd_keep t v v'" by simp
  qed
next
  case False
  have "regs h' = regs h \<and> clsframe H H'"
  proof -
    have "regs (fst (h', H')) = regs h \<and> clsframe H (snd (h', H'))"
    proof (rule for_each_inv[OF b[unfolded bulk_offload_group_def fst_conv], where
        P = "\<lambda>v. regs (fst v) = regs h \<and> clsframe H (snd v)"])
      fix x v v'
      assume v: "regs (fst v) = regs h \<and> clsframe H (snd v)"
        and s: "bulk_offload_item g x v = Inr v'"
      define u where "u = (fst (fst x) + 1, snd (fst x))"
      have u: "u \<noteq> fst x" unfolding u_def by (cases "fst x") simp
      from bulk_offload_item_keep[of g x "fst v" "snd v" "fst v'" "snd v'" u] s u
      have "fwd_keep u v v'" by simp
      with v show "regs (fst v') = regs h \<and> clsframe H (snd v')"
        by (auto simp: fwd_keep_def intro: clsframe_trans)
    qed simp
    then show ?thesis by simp
  qed
  with False show ?thesis by (simp add: fwd_keep_def)
qed

lemma append_buffers_cls:
  assumes "append_buffers db bs acc H = Inr (acc', H')"
  shows "clsframe H H'"
proof -
  have "clsframe H (snd (acc', H'))"
    by (rule for_each_inv[OF assms[unfolded append_buffers_def], where P = "\<lambda>v. clsframe H (snd v)"])
       (auto split: if_splits sum.splits dest!: clsframe_empty_like intro: clsframe_trans)
  then show ?thesis by simp
qed

lemma release_buf_keep:
  "release_buf g item (h, H) = Inr (h', H') \<Longrightarrow> fwd_keep t (h, H) (h', H')"
  by (cases item)
     (auto simp: fwd_keep_def clsframe_set_data_empty split: if_splits pyval.splits)

lemma release_bufs_keep:
  assumes "release_bufs g (h, H) = Inr (h', H')"
  shows "fwd_keep t (h, H) (h', H')"
proof (rule fwd_keep_loop[OF assms[unfolded release_bufs_def fst_conv]])
  fix x v v'
  assume "release_buf g x v = Inr v'"
  then show "fwd_keep t v v'"
    using release_buf_keep[of g x "fst v" "snd v" "fst v'" "snd v'" t] by simp
qed


lemma first_group_block_keep:
  assumes b: "first_group_block cur (h, H) = Inr (h', H')" and d: "distinct (keys h)"
  shows "fwd_keep t (h, H) (h', H')"
proof (cases "cur = 0")
  case False
  with b show ?thesis by (simp add: first_group_block_def)
next
  case True
  with b obtain h1 H1 where
    a: "(if \<not> double_buffer_created h then
           (case append_buffers (double_buffering h) (buf_items (tensor_tag_to_buf h))
                   (fst (reload_double_buffer h)) H of
              Inl e \<Rightarrow> Inl e
            | Inr (b0, H1) \<Rightarrow>
                Inr (h\<lparr>reload_double_buffer := (b0, snd (reload_double_buffer h))\<rparr>, H1))
         else Inr (h, H)) = Inr (h1, H1)" and
    o: "bulk_offload_group cur (h1, H1) = Inr (h', H')"
    by (auto simp: first_group_block_def split: sum.splits)
  from a have k1: "fwd_keep t (h, H) (h1, H1)" and s1: "tensor_tag_to_state h1 = tensor_tag_to_state h"
    by (auto simp: fwd_keep_def split: if_splits sum.splits prod.splits dest: append_buffers_cls)
  from d s1 have "distinct (keys h1)" by simp
  from fwd_keep_trans[OF k1 bulk_offload_group_keep[OF o this]] show ?thesis .
qed

lemma window_block_keep:
  assumes b: "window_block cur (h, H) = Inr (h', H')" and d: "distinct (keys h)"
  shows "fwd_keep t (h, H) (h', H')"
proof -
  from b obtain v where v: "map_of (layer_window_map h) (offloaded_group_count h) = Some v"
    by (auto simp: window_block_def split: option.splits)
  show ?thesis
  proof (cases "v = cur")
    case False
    with b v show ?thesis by (auto simp: window_block_def)
  next
    case True
    with b v obtain h3 H3 h4 H4 where
      r: "release_bufs (offloaded_group_count h) (h, H) = Inr (h3, H3)" and
      o: "(if offloaded_group_count h3 < num_offload_group h3 - 1
           then bulk_offload_group (offloaded_group_count h3 + 1) (h3, H3)
           else Inr (h3, H3)) = Inr (h4, H4)" and
      e: "h' = h4\<lparr>offloaded_group_count := offloaded_group_count h4 + 1\<rparr>" "H' = H4"
      by (auto simp: window_block_def split: sum.splits)
    from release_bufs_slots[OF r] d have d3: "distinct (keys h3)" by simp
    have "fwd_keep t (h3, H3) (h4, H4)"
      using o bulk_offload_group_keep[OF _ d3] by (auto split: if_splits)
    from fwd_keep_trans[OF release_bufs_keep[OF r] this] e show ?thesis
      by (simp add: fwd_keep_def)
  qed
qed

lemma second_buffer_block_keep:
  "second_buffer_block cur (h, H) = Inr (h', H') \<Longrightarrow> fwd_keep t (h, H) (h', H')"
  by (auto simp: second_buffer_block_def fwd_keep_def
           split: if_splits sum.splits prod.splits dest: append_buffers_cls)

lemma commit_forward_keep:
  assumes c: "async_on_group_commit_forward (h, H) = Inr (h', H')" and d: "distinct (keys h)"
  shows "fwd_keep t (h, H) (h', H')"
proof -
  from c obtain h1 H1 h2 H2 h3 H3 where
    a: "first_group_block (current_group h) (h, H) = Inr (h1, H1)" and
    b: "window_block (current_group h) (h1, H1) = Inr (h2, H2)" and
    s: "second_buffer_block (current_group h) (h2, H2) = Inr (h3, H3)" and
    e: "h' = sync_on_group_commit_forward h3" "H' = H3"
    by (auto simp: async_on_group_commit_forward_def synchronize_on_group_commit_forward_def
             split: sum.splits)
  from first_group_block_keys[OF a] d have d1: "distinct (keys h1)" by simp
  have "fwd_keep t (h, H) (h3, H3)"
    using fwd_keep_trans[OF first_group_block_keep[OF a d]
            fwd_keep_trans[OF window_block_keep[OF b d1] second_buffer_block_keep[OF s]]] .
  with e show ?thesis by (simp add: fwd_keep_def sync_on_group_commit_forward_def)
qed






section \<open>The factory with offloading disabled\<close>




end
